theory Spec2Isabelle
  imports Main "HOL-Library.Multiset" "HOL-Library.Log_Nat"
begin

unbundle bit_operations_syntax

section \<open>Python strings\<close>

text \<open>
  A Python \<open>str\<close> is a sequence of Unicode code points and \<open>len\<close> counts code points, so
  a string is modelled as a list of code points (natural numbers). \<open>str\<close> embeds an ASCII
  literal.
\<close>

type_synonym pystr = "nat list"

definition str :: "string \<Rightarrow> pystr" where
  "str s = map of_char s"

text \<open>
  \<open>str.strip()\<close>, \<open>str.split()\<close> and the \<open>\s\<close> class of \<open>re\<close> (on \<open>str\<close> patterns) all use
  the interpreter's whitespace test on code points: U+0009..U+000D, U+001C..U+0020, U+0085,
  U+00A0, U+1680, U+2000..U+200A, U+2028, U+2029, U+202F, U+205F, U+3000.
\<close>

definition isspace :: "nat \<Rightarrow> bool" where
  "isspace c \<longleftrightarrow>
     (0x09 \<le> c \<and> c \<le> 0x0D) \<or> (0x1C \<le> c \<and> c \<le> 0x20) \<or> c = 0x85 \<or> c = 0xA0 \<or>
     c = 0x1680 \<or> (0x2000 \<le> c \<and> c \<le> 0x200A) \<or> c = 0x2028 \<or> c = 0x2029 \<or>
     c = 0x202F \<or> c = 0x205F \<or> c = 0x3000"

definition str_lstrip :: "pystr \<Rightarrow> pystr" where
  "str_lstrip s = dropWhile isspace s"

definition str_rstrip :: "pystr \<Rightarrow> pystr" where
  "str_rstrip s = rev (dropWhile isspace (rev s))"

definition str_strip :: "pystr \<Rightarrow> pystr" where
  "str_strip s = str_rstrip (str_lstrip s)"

text \<open>
  \<open>s.split()\<close> without argument: the maximal runs of non-whitespace code points, in order.
  \<open>split_from cur s\<close> scans \<open>s\<close> with the current token \<open>cur\<close> held reversed.
\<close>

fun split_from :: "pystr \<Rightarrow> pystr \<Rightarrow> pystr list" where
  "split_from cur [] = (if cur = [] then [] else [rev cur])"
| "split_from cur (c # cs) =
     (if isspace c then (if cur = [] then split_from [] cs else rev cur # split_from [] cs)
      else split_from (c # cur) cs)"

definition str_split :: "pystr \<Rightarrow> pystr list" where
  "str_split s = split_from [] s"

text \<open>\<open>s.replace(old, new)\<close> for a single code point \<open>old\<close>.\<close>

definition str_replace :: "nat \<Rightarrow> pystr \<Rightarrow> pystr \<Rightarrow> pystr" where
  "str_replace old new s = concat (map (\<lambda>c. if c = old then new else [c]) s)"

text \<open>\<open>sep.join(parts)\<close>.\<close>

fun str_join :: "pystr \<Rightarrow> pystr list \<Rightarrow> pystr" where
  "str_join sep [] = []"
| "str_join sep [p] = p"
| "str_join sep (p # q # ps) = p @ sep @ str_join sep (q # ps)"

section \<open>Regular expressions of \<open>classify_items\<close>\<close>

text \<open>
  The four patterns of \<open>list_patterns\<close> are sequences of character classes, each taken once,
  zero or more times (\<open>*\<close>) or one or more times (\<open>+\<close>). \<open>re_match p s\<close> is the truth value of
  \<open>re.match(p, s)\<close>: some prefix of \<open>s\<close> is matched by \<open>p\<close>, with backtracking (the result of
  \<open>any\<close> only depends on whether a match exists). The leading \<open>^\<close> adds nothing to \<open>re.match\<close>,
  which is anchored at the start.
\<close>

datatype quant = Once | Star | Plus

type_synonym pattern = "((nat \<Rightarrow> bool) \<times> quant) list"

fun re_match :: "pattern \<Rightarrow> pystr \<Rightarrow> bool" where
  "re_match [] s = True"
| "re_match ((c, Once) # p) [] = False"
| "re_match ((c, Once) # p) (x # xs) = (c x \<and> re_match p xs)"
| "re_match ((c, Star) # p) [] = re_match p []"
| "re_match ((c, Star) # p) (x # xs) = (re_match p (x # xs) \<or> (c x \<and> re_match ((c, Star) # p) xs))"
| "re_match ((c, Plus) # p) [] = False"
| "re_match ((c, Plus) # p) (x # xs) = (c x \<and> re_match ((c, Star) # p) xs)"

definition bullet :: "nat \<Rightarrow> bool" where
  \<comment> \<open>the class of the six bullet glyphs U+2022, U+00B7, U+25AA, U+25AB, U+2023, U+2043\<close>
  "bullet c \<longleftrightarrow> c \<in> {0x2022, 0xB7, 0x25AA, 0x25AB, 0x2023, 0x2043}"

definition letter :: "nat \<Rightarrow> bool" where
  \<comment> \<open>\<open>[a-zA-Z]\<close>\<close>
  "letter c \<longleftrightarrow> (0x61 \<le> c \<and> c \<le> 0x7A) \<or> (0x41 \<le> c \<and> c \<le> 0x5A)"

definition dot_paren :: "nat \<Rightarrow> bool" where
  \<comment> \<open>\<open>[\.\)]\<close>\<close>
  "dot_paren c \<longleftrightarrow> c = 0x2E \<or> c = 0x29"

definition dash_star_plus :: "nat \<Rightarrow> bool" where
  \<comment> \<open>\<open>[-\*\+]\<close>\<close>
  "dash_star_plus c \<longleftrightarrow> c = 0x2D \<or> c = 0x2A \<or> c = 0x2B"

text \<open>
  \<open>\d\<close> on a \<open>str\<close> pattern is the class of the decimal digits of the interpreter's Unicode
  database (category Nd), a table that is not part of the repository: it is the parameter
  \<open>digit\<close> of the classifier. \<open>ascii_digit\<close> is its ASCII part, used where a concrete table is
  needed.
\<close>

definition ascii_digit :: "nat \<Rightarrow> bool" where
  "ascii_digit c \<longleftrightarrow> 0x30 \<le> c \<and> c \<le> 0x39"

definition list_patterns :: "(nat \<Rightarrow> bool) \<Rightarrow> pattern list" where
  "list_patterns digit =
     [[(isspace, Star), (bullet, Once), (isspace, Plus)],
      [(isspace, Star), (digit, Plus), (dot_paren, Once), (isspace, Plus)],
      [(isspace, Star), (letter, Once), (dot_paren, Once), (isspace, Plus)],
      [(isspace, Star), (dash_star_plus, Once), (isspace, Plus)]]"

section \<open>The classifier\<close>

datatype ElementType = TITLE | SUBTITLE | SECTION | PARAGRAPH | LIST_ITEM | TABLE | IMAGE

text \<open>
  A well-formed \<open>font_info\<close> dictionary: keys \<open>name\<close>, \<open>size\<close> and \<open>flags\<close>. The size is a
  finite number, whose comparisons with 16, 14 and 10 are exact, so it is a rational here;
  the flags are a Python integer.
\<close>

record FontInfo =
  font_name :: pystr
  font_size :: rat
  font_flags :: int

definition classify_items :: "(nat \<Rightarrow> bool) \<Rightarrow> pystr \<Rightarrow> FontInfo \<Rightarrow> ElementType" where
  "classify_items digit text font_info =
     (let text_stripped = str_strip text;
          word_count = length (str_split text_stripped);
          is_bold = (font_flags font_info AND 16 \<noteq> 0)
      in if list_ex (\<lambda>pattern. re_match pattern text_stripped) (list_patterns digit)
         then LIST_ITEM
         else if font_size font_info \<ge> 16 \<and> is_bold then TITLE
         else if font_size font_info \<ge> 14 \<and> (is_bold \<or> word_count \<le> 10) then SUBTITLE
         else if font_size font_info \<ge> 10 \<and> word_count \<le> 20 then SECTION
         else PARAGRAPH)"

text \<open>
  The list-marker patterns in the words of the specification, on the trimmed text: a bullet
  glyph followed by whitespace; a digit sequence followed by \<open>.\<close> or \<open>)\<close> then whitespace; a
  single letter followed by \<open>.\<close> or \<open>)\<close> then whitespace; \<open>-\<close>, \<open>*\<close> or \<open>+\<close> followed by
  whitespace.
\<close>

definition list_marker :: "(nat \<Rightarrow> bool) \<Rightarrow> pystr \<Rightarrow> bool" where
  "list_marker digit t \<longleftrightarrow>
     (\<exists>g w r. t = g # w # r \<and> bullet g \<and> isspace w) \<or>
     (\<exists>ds p w r. t = ds @ p # w # r \<and> ds \<noteq> [] \<and> list_all digit ds \<and> dot_paren p \<and> isspace w) \<or>
     (\<exists>l p w r. t = l # p # w # r \<and> letter l \<and> dot_paren p \<and> isspace w) \<or>
     (\<exists>m w r. t = m # w # r \<and> dash_star_plus m \<and> isspace w)"

section \<open>Python numbers\<close>

text \<open>
  The exceptions of the modelled code: \<open>ZeroDivisionError\<close> from a true division,
  \<open>KeyError\<close> from a lookup in an empty \<open>font_info\<close> dictionary, and sqlite's
  \<open>IntegrityError\<close> from the \<open>UNIQUE\<close> constraint on \<open>document_uuid\<close>.
\<close>

datatype py_error = ZeroDivisionError | KeyError | IntegrityError

text \<open>
  A statistic is a Python \<open>int\<close> or a \<open>float\<close>. A finite \<open>float\<close> is the rational it
  denotes. \<open>a / b\<close> on integers gives the binary64 number nearest to the quotient, and
  \<open>round(x, n)\<close> gives the binary64 number nearest to the decimal with \<open>n\<close> fractional digits
  nearest to \<open>x\<close>, both with ties to even. Quotients here are far inside the range of
  normal binary64 numbers (they are sums of lengths of strings held in memory divided by
  list lengths, and page coordinates), so overflow and subnormal results are not modelled.
\<close>

datatype number = PyInt int | PyFloat rat

definition round_half_even :: "int \<Rightarrow> int \<Rightarrow> int" where
  \<comment> \<open>the integer nearest to \<open>n / d\<close> for \<open>d > 0\<close>, ties to the even one\<close>
  "round_half_even n d =
     (let q = n div d; r = n mod d
      in if 2 * r < d then q else if 2 * r > d then q + 1 else if even q then q else q + 1)"

definition floor_log2 :: "int \<Rightarrow> int \<Rightarrow> int" where
  \<comment> \<open>the exponent \<open>e\<close> with \<open>2^e \<le> a / b < 2^(e + 1)\<close>, for \<open>a > 0\<close> and \<open>b > 0\<close>\<close>
  "floor_log2 a b =
     (let d = bitlen a - bitlen b
      in if (if 0 \<le> d then b * 2 ^ nat d \<le> a else b \<le> a * 2 ^ nat (- d)) then d else d - 1)"

definition pow2 :: "int \<Rightarrow> rat" where
  "pow2 e = (if 0 \<le> e then 2 ^ nat e else 1 / 2 ^ nat (- e))"

definition nearest_double_pos :: "int \<Rightarrow> int \<Rightarrow> rat" where
  \<comment> \<open>\<open>a / b\<close> rounded to 53 significant bits, for \<open>a > 0\<close> and \<open>b > 0\<close>\<close>
  "nearest_double_pos a b =
     (let e = floor_log2 a b - 52;
          m = (if 0 \<le> e then round_half_even a (b * 2 ^ nat e)
               else round_half_even (a * 2 ^ nat (- e)) b)
      in of_int m * pow2 e)"

definition nearest_double :: "int \<Rightarrow> int \<Rightarrow> rat" where
  \<comment> \<open>for \<open>b > 0\<close>\<close>
  "nearest_double a b =
     (if a = 0 then 0
      else if a < 0 then - nearest_double_pos (- a) b
      else nearest_double_pos a b)"

definition truediv :: "int \<Rightarrow> int \<Rightarrow> py_error + rat" where
  "truediv a b =
     (if b = 0 then Inl ZeroDivisionError
      else if b < 0 then Inr (nearest_double (- a) (- b))
      else Inr (nearest_double a b))"

definition py_round :: "rat \<Rightarrow> nat \<Rightarrow> rat" where
  "py_round x ndigits =
     (case quotient_of (x * 10 ^ ndigits) of
        (n, d) \<Rightarrow> nearest_double (round_half_even n d) (10 ^ ndigits))"

definition round2_div :: "int \<Rightarrow> int \<Rightarrow> py_error + number" where
  \<comment> \<open>\<open>round(a / b, 2)\<close>\<close>
  "round2_div a b =
     (case truediv a b of Inl err \<Rightarrow> Inl err | Inr q \<Rightarrow> Inr (PyFloat (py_round q 2)))"

definition rounded_mean :: "int \<Rightarrow> int \<Rightarrow> number" where
  \<comment> \<open>the value of \<open>round(a / b, 2)\<close> when \<open>b > 0\<close>\<close>
  "rounded_mean a b = PyFloat (py_round (nearest_double a b) 2)"

text \<open>\<open>str(n)\<close> of an integer, as the f-string of the image identifiers formats it.\<close>

function str_nat :: "nat \<Rightarrow> pystr" where
  "str_nat n = (if n < 10 then [0x30 + n] else str_nat (n div 10) @ [0x30 + n mod 10])"
  by pat_completeness auto
termination
  by (relation "measure id") auto

declare str_nat.simps [simp del]

definition str_int :: "int \<Rightarrow> pystr" where
  "str_int i = (if i < 0 then 0x2D # str_nat (nat (- i)) else str_nat (nat i))"

section \<open>Document elements\<close>

record Position =
  pos_x0 :: rat
  pos_y0 :: rat
  pos_x1 :: rat
  pos_y1 :: rat

text \<open>The \<open>font_info\<close> of an element is \<open>None\<close> for the empty dictionary.\<close>

record DocumentElement =
  element_type :: ElementType
  content :: pystr
  page_number :: int
  position :: Position
  font_info :: "FontInfo option"

record DocumentStatistics =
  title_count :: int
  section_count :: int
  table_count :: int
  image_count :: int
  avg_text_density_per_page :: number
  avg_hierarchical_depth :: number
  avg_paragraph_length :: number
  section_distribution :: "(int \<times> int) list"

definition type_value :: "ElementType \<Rightarrow> pystr" where
  \<comment> \<open>\<open>element_type.value\<close>\<close>
  "type_value t =
     (case t of TITLE \<Rightarrow> str ''title'' | SUBTITLE \<Rightarrow> str ''subtitle'' | SECTION \<Rightarrow> str ''section''
      | PARAGRAPH \<Rightarrow> str ''paragraph'' | LIST_ITEM \<Rightarrow> str ''list_item'' | TABLE \<Rightarrow> str ''table''
      | IMAGE \<Rightarrow> str ''image'')"

section \<open>What the renderer supplies for a page\<close>

text \<open>
  \<open>page.get_text("dict")["blocks"]\<close> is a list of blocks, each with a bounding box; a text
  block has the key \<open>lines\<close>, each line a list of spans with text, font name, size and flags.
  \<open>page.get_images\<close> with \<open>page.get_image_bbox\<close> gives the rectangle of each image, and
  \<open>page.find_tables\<close> the tables, each with a bounding box and the cells that \<open>extract\<close>
  returns (a cell is a string or \<open>None\<close>).
\<close>

record Span =
  span_text :: pystr
  span_font :: pystr
  span_size :: rat
  span_flags :: int

type_synonym bbox = "rat \<times> rat \<times> rat \<times> rat"

datatype Block = TextBlock bbox "Span list list" | OtherBlock bbox

record Table =
  table_bbox :: bbox
  table_data :: "pystr option list list"

record Page =
  page_blocks :: "Block list"
  page_images :: "bbox list"
  page_tables :: "Table list"

section \<open>\<open>PDFExtractor._extract_page_elements\<close>\<close>

text \<open>
  The two nested loops over the lines and spans of a text block: the text of every span is
  appended, and the font information is taken from the first span.
\<close>

definition collect_spans :: "Span list list \<Rightarrow> pystr \<times> FontInfo option" where
  "collect_spans lines =
     fold (\<lambda>span (text_content, fi).
             (text_content @ span_text span,
              case fi of
                None \<Rightarrow> Some \<lparr>font_name = span_font span, font_size = span_size span,
                               font_flags = span_flags span\<rparr>
              | Some f \<Rightarrow> Some f))
          (concat lines) ([], None)"

definition rounded_position :: "bbox \<Rightarrow> Position" where
  "rounded_position b =
     (case b of (a0, b0, a1, b1) \<Rightarrow>
        \<lparr>pos_x0 = py_round a0 4, pos_y0 = py_round b0 4,
         pos_x1 = py_round a1 4, pos_y1 = py_round b1 4\<rparr>)"

definition raw_position :: "bbox \<Rightarrow> Position" where
  "raw_position b =
     (case b of (a0, b0, a1, b1) \<Rightarrow> \<lparr>pos_x0 = a0, pos_y0 = b0, pos_x1 = a1, pos_y1 = b1\<rparr>)"

text \<open>
  The body of the loop over the blocks, for a text block: \<open>Inr None\<close> when the block is
  skipped (\<open>continue\<close>), \<open>Inl KeyError\<close> where \<open>classify_items\<close> would index an empty
  \<open>font_info\<close>.
\<close>

definition text_block_element ::
    "(nat \<Rightarrow> bool) \<Rightarrow> bbox \<Rightarrow> Span list list \<Rightarrow> int \<Rightarrow> py_error + DocumentElement option" where
  "text_block_element digit b lines page_no =
     (case collect_spans lines of
        (text_content, fi) \<Rightarrow>
          if str_strip text_content = [] then Inr None
          else (case fi of
                  None \<Rightarrow> Inl KeyError
                | Some f \<Rightarrow>
                    Inr (Some \<lparr>element_type = classify_items digit text_content f,
                               content = str_replace 0x09 [] (str_replace 0x0A (str '' '')
                                           (str_strip text_content)),
                               page_number = page_no,
                               position = rounded_position b,
                               font_info = Some f\<rparr>)))"

fun text_elements :: "(nat \<Rightarrow> bool) \<Rightarrow> Block list \<Rightarrow> int \<Rightarrow> py_error + DocumentElement list" where
  "text_elements digit [] page_no = Inr []"
| "text_elements digit (OtherBlock b # blocks) page_no = text_elements digit blocks page_no"
| "text_elements digit (TextBlock b lines # blocks) page_no =
     (case text_block_element digit b lines page_no of
        Inl err \<Rightarrow> Inl err
      | Inr None \<Rightarrow> text_elements digit blocks page_no
      | Inr (Some element) \<Rightarrow>
          (case text_elements digit blocks page_no of
             Inl err \<Rightarrow> Inl err
           | Inr elements \<Rightarrow> Inr (element # elements)))"

definition enumerate_from0 :: "'a list \<Rightarrow> (nat \<times> 'a) list" where
  "enumerate_from0 xs = zip [0..<length xs] xs"

definition image_element :: "int \<Rightarrow> nat \<times> bbox \<Rightarrow> DocumentElement" where
  "image_element page_no ib =
     (case ib of (img_index, img_rect) \<Rightarrow>
        \<lparr>element_type = IMAGE,
         content = str ''Image_'' @ str_int page_no @ str ''_'' @ str_int (int img_index),
         page_number = page_no,
         position = raw_position img_rect,
         font_info = None\<rparr>)"

definition table_element :: "int \<Rightarrow> nat \<times> Table \<Rightarrow> DocumentElement" where
  "table_element page_no it =
     (case it of (table_index, table) \<Rightarrow>
        (let clean_table_data =
               map (map (\<lambda>cell. case cell of None \<Rightarrow> [] | Some s \<Rightarrow> s)) (table_data table);
             table_text = str_join [0x0A] (map (str_join [0x09]) clean_table_data)
         in \<lparr>element_type = TABLE,
             content = table_text,
             page_number = page_no,
             position = raw_position (table_bbox table),
             font_info = None\<rparr>))"

definition extract_page_elements ::
    "(nat \<Rightarrow> bool) \<Rightarrow> Page \<Rightarrow> int \<Rightarrow> py_error + DocumentElement list" where
  "extract_page_elements digit page page_no =
     (case text_elements digit (page_blocks page) page_no of
        Inl err \<Rightarrow> Inl err
      | Inr elements \<Rightarrow>
          Inr (elements
               @ map (image_element page_no) (enumerate_from0 (page_images page))
               @ map (table_element page_no) (enumerate_from0 (page_tables page))))"

section \<open>\<open>PDFExtractor._generate_statistics\<close>\<close>

text \<open>
  A \<open>Counter\<close> and a \<open>defaultdict(int)\<close> are dictionaries in insertion order: association
  lists with distinct keys. \<open>dict_incr k d\<close> is \<open>d[k] += 1\<close> on either, \<open>dict_get\<close> is
  \<open>d.get(k, default)\<close>.
\<close>

fun dict_incr :: "'k \<Rightarrow> ('k \<times> int) list \<Rightarrow> ('k \<times> int) list" where
  "dict_incr k [] = [(k, 1)]"
| "dict_incr k ((k', v) # d) = (if k' = k then (k', v + 1) # d else (k', v) # dict_incr k d)"

definition Counter :: "'k list \<Rightarrow> ('k \<times> int) list" where
  "Counter ks = fold dict_incr ks []"

definition dict_get :: "('k \<times> int) list \<Rightarrow> 'k \<Rightarrow> int \<Rightarrow> int" where
  "dict_get d k dflt = (case map_of d k of None \<Rightarrow> dflt | Some v \<Rightarrow> v)"

definition text_density_per_page :: "nat \<Rightarrow> DocumentElement list \<Rightarrow> int list" where
  "text_density_per_page total_pages elements =
     map (\<lambda>page_num.
            let page_elements = filter (\<lambda>e. page_number e = page_num) elements
            in sum_list (map (\<lambda>e. int (length (content e))) page_elements))
         [1..int total_pages]"

definition hierarchical_elements :: "DocumentElement list \<Rightarrow> DocumentElement list" where
  "hierarchical_elements elements =
     filter (\<lambda>e. element_type e \<in> set [TITLE, SUBTITLE, SECTION]) elements"

definition hierarchical_counts_per_page :: "DocumentElement list \<Rightarrow> (int \<times> int) list" where
  "hierarchical_counts_per_page elements =
     fold (\<lambda>elem. dict_incr (page_number elem)) (hierarchical_elements elements) []"

definition section_distribution_of :: "DocumentElement list \<Rightarrow> (int \<times> int) list" where
  "section_distribution_of elements =
     fold (\<lambda>elem d. if element_type elem = SECTION then dict_incr (page_number elem) d else d)
          elements []"

text \<open>
  The function reads \<open>len(doc)\<close> of its argument \<open>doc\<close> and nothing else: \<open>total_pages\<close> is
  that length.
\<close>

definition generate_statistics ::
    "nat \<Rightarrow> DocumentElement list \<Rightarrow> py_error + DocumentStatistics" where
  "generate_statistics total_pages elements =
     (let element_counts = Counter (map (\<lambda>elem. type_value (element_type elem)) elements);
          density = text_density_per_page total_pages elements
      in case round2_div (sum_list density) (int (length density)) of
           Inl err \<Rightarrow> Inl err
         | Inr avg_density \<Rightarrow>
             (let counts = hierarchical_counts_per_page elements
              in case (if length counts \<noteq> 0
                       then round2_div (sum_list (map snd counts)) (int (length counts))
                       else Inr (PyInt 0)) of
                   Inl err \<Rightarrow> Inl err
                 | Inr avg_depth \<Rightarrow>
                     (let paragraphs = filter (\<lambda>e. element_type e = PARAGRAPH) elements
                      in case (if paragraphs \<noteq> []
                               then round2_div
                                      (sum_list (map (\<lambda>p. int (length (str_split (content p))))
                                         paragraphs))
                                      (int (length paragraphs))
                               else Inr (PyInt 0)) of
                           Inl err \<Rightarrow> Inl err
                         | Inr avg_paragraph \<Rightarrow>
                             Inr \<lparr>title_count = dict_get element_counts (type_value TITLE) 0,
                                  section_count = dict_get element_counts (type_value SECTION) 0,
                                  table_count = dict_get element_counts (type_value TABLE) 0,
                                  image_count = dict_get element_counts (type_value IMAGE) 0,
                                  avg_text_density_per_page = avg_density,
                                  avg_hierarchical_depth = avg_depth,
                                  avg_paragraph_length = avg_paragraph,
                                  section_distribution = section_distribution_of elements\<rparr>)))"

section \<open>\<open>PDFExtractor.extract_structure\<close>\<close>

text \<open>
  A document is the list of its pages, as \<open>fitz.open\<close> gives it for a file that exists;
  opening the file, logging and closing the document are left out. The loop over
  \<open>range(len(doc))\<close> extends the element list with the elements of each page, numbered
  from 1; the statistics are generated from the whole list.
\<close>

fun extract_pages :: "(nat \<Rightarrow> bool) \<Rightarrow> Page list \<Rightarrow> int \<Rightarrow> py_error + DocumentElement list" where
  "extract_pages digit [] page_num = Inr []"
| "extract_pages digit (page # pages) page_num =
     (case extract_page_elements digit page (page_num + 1) of
        Inl err \<Rightarrow> Inl err
      | Inr page_elements \<Rightarrow>
          (case extract_pages digit pages (page_num + 1) of
             Inl err \<Rightarrow> Inl err
           | Inr elements \<Rightarrow> Inr (page_elements @ elements)))"

definition extract_structure ::
    "(nat \<Rightarrow> bool) \<Rightarrow> Page list \<Rightarrow> py_error + DocumentElement list \<times> DocumentStatistics" where
  "extract_structure digit doc =
     (case extract_pages digit doc 0 of
        Inl err \<Rightarrow> Inl err
      | Inr elements \<Rightarrow>
          (case generate_statistics (length doc) elements of
             Inl err \<Rightarrow> Inl err
           | Inr stats \<Rightarrow> Inr (elements, stats)))"

section \<open>The statistics in the words of the specification\<close>

text \<open>
  For the density, the specification builds a map from each page to the summed content
  length of its elements in one pass over the elements, and lets a page that is absent
  from the map contribute 0.
\<close>

definition page_lengths :: "DocumentElement list \<Rightarrow> (int \<rightharpoonup> int)" where
  "page_lengths elements =
     fold (\<lambda>e m. m(page_number e \<mapsto>
                    (case m (page_number e) of None \<Rightarrow> 0 | Some l \<Rightarrow> l) + int (length (content e))))
          elements Map.empty"

definition page_length :: "DocumentElement list \<Rightarrow> int \<Rightarrow> int" where
  "page_length elements p = (case page_lengths elements p of None \<Rightarrow> 0 | Some l \<Rightarrow> l)"

text \<open>
  For the depth: the pages that hold at least one hierarchical element (title, subtitle or
  section), and the number of such elements on a page.
\<close>

definition hierarchical :: "DocumentElement \<Rightarrow> bool" where
  "hierarchical e \<longleftrightarrow> element_type e = TITLE \<or> element_type e = SUBTITLE \<or> element_type e = SECTION"

definition hierarchical_pages :: "DocumentElement list \<Rightarrow> int set" where
  "hierarchical_pages elements = page_number ` {e \<in> set elements. hierarchical e}"

definition hierarchical_on_page :: "DocumentElement list \<Rightarrow> int \<Rightarrow> int" where
  "hierarchical_on_page elements p =
     int (length (filter (\<lambda>e. hierarchical e \<and> page_number e = p) elements))"

text \<open>
  The two averages as exact rationals: the summed content length of the pages 1 to the page
  count divided by the page count, and the number of hierarchical elements per page that
  holds one.
\<close>

definition total_text_length :: "nat \<Rightarrow> DocumentElement list \<Rightarrow> int" where
  "total_text_length total_pages elements = (\<Sum>p = 1..int total_pages. page_length elements p)"

definition mean_text_density :: "nat \<Rightarrow> DocumentElement list \<Rightarrow> rat" where
  "mean_text_density total_pages elements =
     of_int (total_text_length total_pages elements) / of_int (int total_pages)"

definition hierarchical_total :: "DocumentElement list \<Rightarrow> int" where
  "hierarchical_total elements =
     (\<Sum>p \<in> hierarchical_pages elements. hierarchical_on_page elements p)"

definition mean_hierarchical_depth :: "DocumentElement list \<Rightarrow> rat" where
  "mean_hierarchical_depth elements =
     of_int (hierarchical_total elements) / of_int (int (card (hierarchical_pages elements)))"

text \<open>
  Rounding, stated without the algorithms of the code. \<open>nearest_even x k\<close>: the integer
  \<open>k\<close> is nearest to \<open>x\<close>, the even one of the two when \<open>x\<close> lies half way.
  \<open>nearest_binary64 x r\<close>: \<open>r\<close> is \<open>x\<close> rounded to 53 significant bits, that is plus or
  minus \<open>m * 2^e\<close> for the exponent \<open>e\<close> that puts \<open>|x| / 2^e\<close> between \<open>2^52\<close> and
  \<open>2^53\<close> and the integer \<open>m\<close> nearest to \<open>|x| / 2^e\<close>, ties to even; the range of the
  exponent is not bounded.
\<close>

definition nearest_even :: "rat \<Rightarrow> int \<Rightarrow> bool" where
  "nearest_even x k \<longleftrightarrow> \<bar>of_int k - x\<bar> < 1 / 2 \<or> \<bar>of_int k - x\<bar> = 1 / 2 \<and> even k"

definition nearest_binary64 :: "rat \<Rightarrow> rat \<Rightarrow> bool" where
  "nearest_binary64 x r \<longleftrightarrow>
     x = 0 \<and> r = 0 \<or>
     (\<exists>m e. 2 ^ 52 \<le> \<bar>x\<bar> / 2 powi e \<and> \<bar>x\<bar> / 2 powi e < 2 ^ 53 \<and>
            nearest_even (\<bar>x\<bar> / 2 powi e) m \<and> r = sgn x * (of_int m * 2 powi e))"

section \<open>\<open>DocumentStorage\<close>\<close>

text \<open>
  The sqlite database, as far as \<open>get_document_elements\<close> reads it: the tables
  \<open>documents\<close> and \<open>elements\<close>, each a list of rows in insertion order. The \<open>created_at\<close>
  and \<open>processed_at\<close> timestamps and the table \<open>document_statistics\<close> are left out. The
  position columns are never \<open>NULL\<close>, since every element carries the four keys.
\<close>

record DocumentRow =
  doc_id :: int
  document_uuid :: pystr
  filename :: pystr

record ElementRow =
  row_id :: int
  document_id :: int
  row_element_type :: pystr
  row_content :: pystr
  row_page_number :: int
  position_x0 :: rat
  position_y0 :: rat
  position_x1 :: rat
  position_y1 :: rat

record Database =
  documents_table :: "DocumentRow list"
  elements_table :: "ElementRow list"

definition empty_database :: Database where
  "empty_database = \<lparr>documents_table = [], elements_table = []\<rparr>"

definition next_id :: "int list \<Rightarrow> int" where
  \<comment> \<open>\<open>INTEGER PRIMARY KEY AUTOINCREMENT\<close>: one more than the largest id (no row is ever deleted)\<close>
  "next_id ids = fold max ids 0 + 1"

text \<open>
  \<open>save_document\<close>. The fresh \<open>uuid.uuid4()\<close> is the parameter \<open>new_uuid\<close>; a uuid that is
  already stored violates the \<open>UNIQUE\<close> constraint, the transaction is rolled back and the
  exception raised again. The result is the new database and the uuid.
\<close>

definition element_row :: "int \<Rightarrow> int \<Rightarrow> nat \<times> DocumentElement \<Rightarrow> ElementRow" where
  "element_row first_id new_document_id ie =
     (case ie of (i, elem) \<Rightarrow>
        \<lparr>row_id = first_id + int i,
         document_id = new_document_id,
         row_element_type = type_value (element_type elem),
         row_content = content elem,
         row_page_number = page_number elem,
         position_x0 = pos_x0 (position elem),
         position_y0 = pos_y0 (position elem),
         position_x1 = pos_x1 (position elem),
         position_y1 = pos_y1 (position elem)\<rparr>)"

definition save_document ::
    "Database \<Rightarrow> pystr \<Rightarrow> pystr \<Rightarrow> DocumentElement list \<Rightarrow> py_error + Database \<times> pystr" where
  "save_document db new_uuid original_filename elements =
     (if new_uuid \<in> set (map document_uuid (documents_table db)) then Inl IntegrityError
      else
        (let new_document_id = next_id (map doc_id (documents_table db));
             element_data =
               map (element_row (next_id (map row_id (elements_table db))) new_document_id)
                 (enumerate_from0 elements)
         in Inr (\<lparr>documents_table =
                     documents_table db
                     @ [\<lparr>doc_id = new_document_id, document_uuid = new_uuid,
                          filename = original_filename\<rparr>],
                   elements_table = elements_table db @ element_data\<rparr>,
                 new_uuid)))"

text \<open>
  \<open>get_document_elements\<close>: the join of \<open>elements\<close> with \<open>documents\<close> on the document id,
  restricted to the uuid and, when the optional arguments are truthy, to the element type
  and the page number.
\<close>

definition select_elements ::
    "Database \<Rightarrow> pystr \<Rightarrow> pystr option \<Rightarrow> int option \<Rightarrow> ElementRow list" where
  "select_elements db uuid type_filter page_filter =
     filter (\<lambda>e. (case page_filter of
                     None \<Rightarrow> True
                   | Some n \<Rightarrow> n = 0 \<or> row_page_number e = n))
       (filter (\<lambda>e. (case type_filter of
                        None \<Rightarrow> True
                      | Some t \<Rightarrow> t = [] \<or> row_element_type e = t))
          [e. e \<leftarrow> elements_table db, d \<leftarrow> documents_table db,
              document_id e = doc_id d \<and> document_uuid d = uuid])"

text \<open>
  \<open>ORDER BY e.page_number, e.position_y0 DESC\<close>: \<open>sorts_before a b\<close> when row \<open>a\<close> may come
  before row \<open>b\<close>. SQL leaves the order of rows with equal keys open; \<open>order_by\<close> keeps them
  in table order.
\<close>

definition sorts_before :: "ElementRow \<Rightarrow> ElementRow \<Rightarrow> bool" where
  "sorts_before a b \<longleftrightarrow>
     row_page_number a < row_page_number b \<or>
     (row_page_number a = row_page_number b \<and> position_y0 b \<le> position_y0 a)"

fun insert_row :: "ElementRow \<Rightarrow> ElementRow list \<Rightarrow> ElementRow list" where
  "insert_row r [] = [r]"
| "insert_row r (x # xs) = (if sorts_before r x then r # x # xs else x # insert_row r xs)"

definition order_by :: "ElementRow list \<Rightarrow> ElementRow list" where
  "order_by rows = foldr insert_row rows []"

definition get_document_elements ::
    "Database \<Rightarrow> pystr \<Rightarrow> pystr option \<Rightarrow> int option \<Rightarrow> ElementRow list" where
  "get_document_elements db uuid type_filter page_filter =
     order_by (select_elements db uuid type_filter page_filter)"

section \<open>The emission order of the renderer\<close>

text \<open>
  The elements that a block gives rise to: one for a text block that is not blank, none
  for any other block. \<open>emitted_elements\<close> lists the elements of a page in the order of the
  specification: the text blocks in block order, then the images, then the tables.
\<close>

definition block_elements :: "(nat \<Rightarrow> bool) \<Rightarrow> int \<Rightarrow> Block \<Rightarrow> DocumentElement list" where
  "block_elements digit page_no blk =
     (case blk of
        OtherBlock b \<Rightarrow> []
      | TextBlock b lines \<Rightarrow>
          (case text_block_element digit b lines page_no of
             Inr (Some element) \<Rightarrow> [element]
           | _ \<Rightarrow> []))"

definition emitted_elements :: "(nat \<Rightarrow> bool) \<Rightarrow> Page \<Rightarrow> int \<Rightarrow> DocumentElement list" where
  "emitted_elements digit page page_no =
     concat (map (block_elements digit page_no) (page_blocks page))
     @ map (image_element page_no) (enumerate_from0 (page_images page))
     @ map (table_element page_no) (enumerate_from0 (page_tables page))"

section \<open>Example data\<close>

text \<open>
  A section heading on page 2, and a span whose text \<open>"a\tb"\<close> holds a tab character, used to
  instantiate the theorems.
\<close>

definition example_section :: DocumentElement where
  "example_section =
     \<lparr>element_type = SECTION, content = str ''Scope'', page_number = 2,
      position = \<lparr>pos_x0 = 72, pos_y0 = 100, pos_x1 = 200, pos_y1 = 120\<rparr>,
      font_info = Some \<lparr>font_name = str ''Helvetica'', font_size = 12, font_flags = 0\<rparr>\<rparr>"

definition example_tab_span :: Span where
  "example_tab_span =
     \<lparr>span_text = [0x61, 0x09, 0x62], span_font = str ''Helvetica'', span_size = 12,
      span_flags = 0\<rparr>"

text \<open>
  A page with a bold 18 pt heading at the top (\<open>y0 = 72\<close>) and an 11 pt line of body text
  below it (\<open>y0 = 100\<close>; the page coordinates of the renderer grow downward).
\<close>

definition example_heading_span :: Span where
  "example_heading_span =
     \<lparr>span_text = str ''Heading'', span_font = str ''Helvetica-Bold'', span_size = 18,
      span_flags = 16\<rparr>"

definition example_body_span :: Span where
  "example_body_span =
     \<lparr>span_text = str ''Body'', span_font = str ''Helvetica'', span_size = 11,
      span_flags = 0\<rparr>"

definition example_page :: Page where
  "example_page =
     \<lparr>page_blocks = [TextBlock (72, 72, 200, 92) [[example_heading_span]],
                     TextBlock (72, 100, 200, 120) [[example_body_span]]],
      page_images = [], page_tables = []\<rparr>"

text \<open>An element of 107 characters on page 1, for a mean of 107 / 40 over 40 pages.\<close>

definition example_long :: DocumentElement where
  "example_long = example_section \<lparr>content := replicate 107 0x61, page_number := 1\<rparr>"

section \<open>Properties of the classifier\<close>

lemma re_match_star_skip: "re_match p s \<Longrightarrow> re_match ((c, Star) # p) s"
  by (cases s) simp_all

lemma re_match_star_run:
  "list_all c ds \<Longrightarrow> re_match p s \<Longrightarrow> re_match ((c, Star) # p) (ds @ s)"
  by (induction ds) (simp_all add: re_match_star_skip)

lemma re_match_plus_run:
  "list_all c ds \<Longrightarrow> ds \<noteq> [] \<Longrightarrow> re_match p s \<Longrightarrow> re_match ((c, Plus) # p) (ds @ s)"
  by (cases ds) (simp_all add: re_match_star_run)

lemma re_match_tail_space: "isspace w \<Longrightarrow> re_match [(isspace, Plus)] (w # r)"
  by (cases r) simp_all

lemma re_match_once: "c x \<Longrightarrow> re_match p xs \<Longrightarrow> re_match ((c, Once) # p) (x # xs)"
  by simp

lemma list_marker_matches:
  assumes "list_marker digit t"
  shows "list_ex (\<lambda>pattern. re_match pattern t) (list_patterns digit)"
proof -
  from assms consider
      (b) g w r where "t = g # w # r" "bullet g" "isspace w"
    | (n) ds p w r where "t = ds @ p # w # r" "ds \<noteq> []" "list_all digit ds" "dot_paren p" "isspace w"
    | (l) l p w r where "t = l # p # w # r" "letter l" "dot_paren p" "isspace w"
    | (d) m w r where "t = m # w # r" "dash_star_plus m" "isspace w"
    unfolding list_marker_def by (elim disjE exE conjE)
  then show ?thesis
  proof cases
    case b
    have "re_match [(isspace, Star), (bullet, Once), (isspace, Plus)] (g # w # r)"
      using b(2,3) by (intro re_match_star_skip re_match_once re_match_tail_space)
    then show ?thesis unfolding b(1) by (simp add: list_patterns_def)
  next
    case n
    have "re_match [(dot_paren, Once), (isspace, Plus)] (p # w # r)"
      using n(4,5) by (intro re_match_once re_match_tail_space)
    then have "re_match [(digit, Plus), (dot_paren, Once), (isspace, Plus)] (ds @ p # w # r)"
      using n(2,3) by (intro re_match_plus_run)
    then have "re_match [(isspace, Star), (digit, Plus), (dot_paren, Once), (isspace, Plus)] t"
      unfolding n(1) by (rule re_match_star_skip)
    then show ?thesis by (simp add: list_patterns_def)
  next
    case l
    have "re_match [(isspace, Star), (letter, Once), (dot_paren, Once), (isspace, Plus)] (l # p # w # r)"
      using l(2,3,4) by (intro re_match_star_skip re_match_once re_match_tail_space)
    then show ?thesis unfolding l(1) by (simp add: list_patterns_def)
  next
    case d
    have "re_match [(isspace, Star), (dash_star_plus, Once), (isspace, Plus)] (m # w # r)"
      using d(2,3) by (intro re_match_star_skip re_match_once re_match_tail_space)
    then show ?thesis unfolding d(1) by (simp add: list_patterns_def)
  qed
qed

lemma re_match_once_elim:
  "re_match ((c, Once) # p) s \<Longrightarrow> \<exists>x xs. s = x # xs \<and> c x \<and> re_match p xs"
  by (cases s) simp_all

lemma re_match_star_elim:
  "re_match ((c, Star) # p) s \<Longrightarrow> \<exists>ws r. s = ws @ r \<and> list_all c ws \<and> re_match p r"
proof (induction s)
  case Nil
  then show ?case by simp
next
  case (Cons x xs)
  from Cons.prems have "re_match p (x # xs) \<or> (c x \<and> re_match ((c, Star) # p) xs)" by simp
  then show ?case
  proof
    assume "re_match p (x # xs)"
    then have "x # xs = [] @ (x # xs) \<and> list_all c [] \<and> re_match p (x # xs)" by simp
    then show ?thesis by blast
  next
    assume a: "c x \<and> re_match ((c, Star) # p) xs"
    with Cons.IH obtain ws r where "xs = ws @ r" "list_all c ws" "re_match p r" by blast
    with a have "x # xs = (x # ws) @ r \<and> list_all c (x # ws) \<and> re_match p r" by simp
    then show ?thesis by blast
  qed
qed

lemma re_match_plus_elim:
  assumes "re_match ((c, Plus) # p) s"
  shows "\<exists>ws r. s = ws @ r \<and> ws \<noteq> [] \<and> list_all c ws \<and> re_match p r"
proof (cases s)
  case Nil
  with assms show ?thesis by simp
next
  case (Cons x xs)
  with assms have cx: "c x" and "re_match ((c, Star) # p) xs" by simp_all
  then obtain ws r where "xs = ws @ r" "list_all c ws" "re_match p r"
    using re_match_star_elim by blast
  with cx Cons have "s = (x # ws) @ r \<and> x # ws \<noteq> [] \<and> list_all c (x # ws) \<and> re_match p r" by simp
  then show ?thesis by blast
qed

lemma re_match_space_elim:
  "re_match [(isspace, Plus)] s \<Longrightarrow> \<exists>w r. s = w # r \<and> isspace w"
  by (cases s) simp_all

lemma str_rstrip_prefix: "\<exists>v. u = str_rstrip u @ v"
proof -
  have "rev (takeWhile isspace (rev u) @ dropWhile isspace (rev u)) = u"
    by (simp only: takeWhile_dropWhile_id rev_rev_ident)
  then have "u = str_rstrip u @ rev (takeWhile isspace (rev u))"
    by (simp only: rev_append str_rstrip_def)
  then show ?thesis ..
qed

lemma str_strip_head: "str_strip text = x # xs \<Longrightarrow> \<not> isspace x"
proof -
  assume a: "str_strip text = x # xs"
  obtain v where "str_lstrip text = str_rstrip (str_lstrip text) @ v"
    using str_rstrip_prefix by blast
  with a have "dropWhile isspace text = x # (xs @ v)" by (simp add: str_strip_def str_lstrip_def)
  then show ?thesis by (metis hd_dropWhile list.sel(1) list.distinct(1))
qed

lemma leading_space_stripped:
  assumes "str_strip text = ws @ r" "list_all isspace ws" "r \<noteq> []"
  shows "ws = []"
proof (cases ws)
  case Nil then show ?thesis .
next
  case (Cons w ws')
  with assms(1) have "\<not> isspace w" using str_strip_head by simp
  with Cons assms(2) show ?thesis by simp
qed

lemma matches_list_marker:
  assumes m: "list_ex (\<lambda>pattern. re_match pattern (str_strip text)) (list_patterns digit)"
  shows "list_marker digit (str_strip text)"
proof -
  let ?t = "str_strip text"
  have lead: "\<exists>x xs. ?t = x # xs \<and> re_match p ?t" if "re_match ((isspace, Star) # p) ?t"
    and ne: "\<And>r. re_match p r \<Longrightarrow> r \<noteq> []" for p
  proof -
    from that(1) obtain ws r where w: "?t = ws @ r" "list_all isspace ws" "re_match p r"
      using re_match_star_elim by blast
    then have "r \<noteq> []" using ne by blast
    with w have "ws = []" using leading_space_stripped by blast
    with w \<open>r \<noteq> []\<close> show ?thesis by (cases r) simp_all
  qed
  from m consider
      (b) "re_match [(isspace, Star), (bullet, Once), (isspace, Plus)] ?t"
    | (n) "re_match [(isspace, Star), (digit, Plus), (dot_paren, Once), (isspace, Plus)] ?t"
    | (l) "re_match [(isspace, Star), (letter, Once), (dot_paren, Once), (isspace, Plus)] ?t"
    | (d) "re_match [(isspace, Star), (dash_star_plus, Once), (isspace, Plus)] ?t"
    by (auto simp: list_patterns_def)
  then show ?thesis
  proof cases
    case b
    have "re_match [(bullet, Once), (isspace, Plus)] ?t"
      using lead [OF b] re_match_once_elim by blast
    then obtain g xs where "?t = g # xs" "bullet g" "re_match [(isspace, Plus)] xs"
      using re_match_once_elim by blast
    moreover then obtain w r where "xs = w # r" "isspace w"
      using re_match_space_elim by blast
    ultimately have "\<exists>g w r. ?t = g # w # r \<and> bullet g \<and> isspace w" by blast
    then show ?thesis unfolding list_marker_def by (intro disjI1)
  next
    case n
    have "re_match [(digit, Plus), (dot_paren, Once), (isspace, Plus)] ?t"
      using lead [OF n] re_match_plus_elim by blast
    then obtain ds r1 where 1: "?t = ds @ r1" "ds \<noteq> []" "list_all digit ds"
        "re_match [(dot_paren, Once), (isspace, Plus)] r1"
      using re_match_plus_elim by blast
    then obtain p r2 where 2: "r1 = p # r2" "dot_paren p" "re_match [(isspace, Plus)] r2"
      using re_match_once_elim by blast
    then obtain w r where 3: "r2 = w # r" "isspace w"
      using re_match_space_elim by blast
    from 1 2 3 have "\<exists>ds p w r. ?t = ds @ p # w # r \<and> ds \<noteq> [] \<and> list_all digit ds \<and>
        dot_paren p \<and> isspace w" by blast
    then show ?thesis unfolding list_marker_def by (intro disjI2 disjI1)
  next
    case l
    have "re_match [(letter, Once), (dot_paren, Once), (isspace, Plus)] ?t"
      using lead [OF l] re_match_once_elim by blast
    then obtain c r1 where 1: "?t = c # r1" "letter c"
        "re_match [(dot_paren, Once), (isspace, Plus)] r1"
      using re_match_once_elim by blast
    then obtain p r2 where 2: "r1 = p # r2" "dot_paren p" "re_match [(isspace, Plus)] r2"
      using re_match_once_elim by blast
    then obtain w r where 3: "r2 = w # r" "isspace w"
      using re_match_space_elim by blast
    from 1 2 3 have "\<exists>l p w r. ?t = l # p # w # r \<and> letter l \<and> dot_paren p \<and> isspace w"
      by blast
    then show ?thesis unfolding list_marker_def by (intro disjI2 disjI1)
  next
    case d
    have "re_match [(dash_star_plus, Once), (isspace, Plus)] ?t"
      using lead [OF d] re_match_once_elim by blast
    then obtain g xs where "?t = g # xs" "dash_star_plus g" "re_match [(isspace, Plus)] xs"
      using re_match_once_elim by blast
    moreover then obtain w r where "xs = w # r" "isspace w"
      using re_match_space_elim by blast
    ultimately have "\<exists>m w r. ?t = m # w # r \<and> dash_star_plus m \<and> isspace w" by blast
    then show ?thesis unfolding list_marker_def by (intro disjI2)
  qed
qed

lemma list_marker_iff:
  "list_marker digit (str_strip text) \<longleftrightarrow>
   list_ex (\<lambda>pattern. re_match pattern (str_strip text)) (list_patterns digit)"
  using list_marker_matches matches_list_marker by blast

text \<open>
  C1. Whenever the trimmed text carries one of the recognised list markers, \<open>classify_items\<close>
  returns \<open>LIST_ITEM\<close>, whatever the font size and the flags (so also whatever the bold bit)
  of the font information, and whatever the table of decimal digits.
\<close>

theorem classify_items_list_item:
  "list_marker digit (str_strip text) \<Longrightarrow> classify_items digit text fi = LIST_ITEM"
  using list_marker_matches [of digit "str_strip text"] by (simp add: classify_items_def Let_def)

text \<open>
  The text \<open>"  1. intro"\<close> in a bold 24 pt font, which the font rules alone would make a
  title, is a list item.
\<close>

theorem classify_items_list_item_witness:
  "list_marker ascii_digit (str_strip (str ''  1. intro'')) \<and>
   classify_items ascii_digit (str ''  1. intro'')
     \<lparr>font_name = str ''Helvetica-Bold'', font_size = 24, font_flags = 16\<rparr> = LIST_ITEM"
proof -
  have s: "str_strip (str ''  1. intro'') = [0x31] @ 0x2E # 0x20 # str ''intro''"
    by (simp add: str_strip_def str_lstrip_def str_rstrip_def str_def isspace_def)
  have "\<exists>ds p w r. [0x31] @ 0x2E # 0x20 # str ''intro'' = ds @ p # w # r \<and> ds \<noteq> [] \<and>
          list_all ascii_digit ds \<and> dot_paren p \<and> isspace w"
    by (intro exI [of _ "[0x31]"] exI [of _ "0x2E"] exI [of _ "0x20"] exI [of _ "str ''intro''"])
       (simp add: ascii_digit_def dot_paren_def isspace_def)
  then have h: "list_marker ascii_digit (str_strip (str ''  1. intro''))"
    unfolding list_marker_def s by (intro disjI2 disjI1)
  show ?thesis
    using h classify_items_list_item [OF h] by simp
qed

text \<open>
  C2. For a text that carries no list marker: a font size of at least 16 with the bold bit
  (\<open>flags & 16\<close>) set gives \<open>TITLE\<close>, so also at size exactly 16; when the title rule
  does not apply, a size of at least 14 with the bold bit set or at most 10 words gives
  \<open>SUBTITLE\<close>, so also at size 15.99 with the bold bit set and 5 words.
\<close>

theorem classify_items_title_subtitle:
  assumes "\<not> list_marker digit (str_strip text)"
  shows "(16 \<le> font_size f \<and> font_flags f AND 16 \<noteq> 0 \<longrightarrow> classify_items digit text f = TITLE) \<and>
         (\<not> (16 \<le> font_size f \<and> font_flags f AND 16 \<noteq> 0) \<and> 14 \<le> font_size f \<and>
            (font_flags f AND 16 \<noteq> 0 \<or> length (str_split (str_strip text)) \<le> 10)
          \<longrightarrow> classify_items digit text f = SUBTITLE) \<and>
         (font_size f = 1599 / 100 \<and> font_flags f AND 16 \<noteq> 0 \<and>
            length (str_split (str_strip text)) = 5
          \<longrightarrow> classify_items digit text f = SUBTITLE)"
proof -
  from assms have nl: "\<not> list_ex (\<lambda>pattern. re_match pattern (str_strip text)) (list_patterns digit)"
    using list_marker_iff by blast
  have "(1599 / 100 :: rat) < 16" "(14 :: rat) \<le> 1599 / 100" by simp_all
  then show ?thesis
    using nl by (auto simp add: classify_items_def Let_def)
qed

lemma notes_words:
  "str_strip (str ''Notes on the new plan'') = str ''Notes on the new plan''"
  "length (str_split (str ''Notes on the new plan'')) = 5"
  by (simp_all add: str_strip_def str_lstrip_def str_rstrip_def str_split_def str_def isspace_def)

lemma notes_no_marker:
  "\<not> list_marker ascii_digit (str_strip (str ''Notes on the new plan''))"
proof -
  have "\<not> list_ex (\<lambda>pattern. re_match pattern (str_strip (str ''Notes on the new plan'')))
          (list_patterns ascii_digit)"
    unfolding notes_words
    by (simp add: list_patterns_def str_def isspace_def bullet_def letter_def dot_paren_def
          dash_star_plus_def ascii_digit_def)
  then show ?thesis using list_marker_iff by blast
qed

theorem classify_items_title_subtitle_witness:
  "\<not> list_marker ascii_digit (str_strip (str ''Notes on the new plan'')) \<and>
   classify_items ascii_digit (str ''Notes on the new plan'')
     \<lparr>font_name = str ''Times-Bold'', font_size = 16, font_flags = 20\<rparr> = TITLE \<and>
   length (str_split (str_strip (str ''Notes on the new plan''))) = 5 \<and>
   classify_items ascii_digit (str ''Notes on the new plan'')
     \<lparr>font_name = str ''Times-Bold'', font_size = 1599 / 100, font_flags = 20\<rparr> = SUBTITLE"
  using notes_no_marker notes_words
    classify_items_title_subtitle [OF notes_no_marker,
      of "\<lparr>font_name = str ''Times-Bold'', font_size = 16, font_flags = 20\<rparr>"]
    classify_items_title_subtitle [OF notes_no_marker,
      of "\<lparr>font_name = str ''Times-Bold'', font_size = 1599 / 100, font_flags = 20\<rparr>"]
  by simp

section \<open>Dictionaries of counts\<close>

lemma dict_incr_keys:
  "map fst (dict_incr k d) = (if k \<in> set (map fst d) then map fst d else map fst d @ [k])"
  by (induction d) force+

lemma dict_incr_sum: "sum_list (map snd (dict_incr k d)) = sum_list (map snd d) + 1"
  by (induction d) auto

lemma dict_incr_positive: "\<forall>(k', v) \<in> set d. 1 \<le> v \<Longrightarrow> \<forall>(k', v) \<in> set (dict_incr k d). 1 \<le> v"
  by (induction d) (auto split: if_splits)

lemma dict_incr_map_of:
  "map_of (dict_incr k d) k' =
     (if k' = k then Some ((case map_of d k of None \<Rightarrow> 0 | Some v \<Rightarrow> v) + 1) else map_of d k')"
  by (induction d) auto

lemma fold_dict_incr_keys:
  "distinct (map fst d) \<Longrightarrow>
   distinct (map fst (fold dict_incr ks d)) \<and>
   set (map fst (fold dict_incr ks d)) = set (map fst d) \<union> set ks"
proof (induction ks arbitrary: d)
  case Nil
  then show ?case by simp
next
  case (Cons k ks)
  have "distinct (map fst (dict_incr k d))"
    using Cons.prems by (simp add: dict_incr_keys)
  from Cons.IH [OF this] show ?case
    by (auto simp: dict_incr_keys)
qed

lemma fold_dict_incr_sum:
  "sum_list (map snd (fold dict_incr ks d)) = sum_list (map snd d) + int (length ks)"
  by (induction ks arbitrary: d) (simp_all add: dict_incr_sum)

lemma fold_dict_incr_positive:
  "\<forall>(k', v) \<in> set d. 1 \<le> v \<Longrightarrow> \<forall>(k', v) \<in> set (fold dict_incr ks d). 1 \<le> v"
proof (induction ks arbitrary: d)
  case Nil
  then show ?case by simp
next
  case (Cons k ks)
  from Cons.IH [OF dict_incr_positive [OF Cons.prems]] show ?case by simp
qed

lemma fold_dict_incr_map_of:
  "(case map_of (fold dict_incr ks d) k of None \<Rightarrow> 0 | Some v \<Rightarrow> v) =
   (case map_of d k of None \<Rightarrow> 0 | Some v \<Rightarrow> v) + int (count_list ks k)"
  by (induction ks arbitrary: d) (simp_all add: dict_incr_map_of)

lemma Counter_get: "dict_get (Counter ks) k 0 = int (count_list ks k)"
  using fold_dict_incr_map_of [of ks "[]" k] by (simp add: Counter_def dict_get_def)

lemma Counter_sum: "sum_list (map snd (fold dict_incr ks [])) = int (length ks)"
  by (simp add: fold_dict_incr_sum)

lemma Counter_length: "length (fold dict_incr ks []) = card (set ks)"
proof -
  have "distinct (map fst (fold dict_incr ks []))"
    and "set (map fst (fold dict_incr ks [])) = set ks"
    using fold_dict_incr_keys [of "[]" ks] by simp_all
  then have "card (set ks) = length (map fst (fold dict_incr ks []))"
    using distinct_card by metis
  then show ?thesis by simp
qed

lemma type_value_inj: "type_value s = type_value t \<longleftrightarrow> s = t"
  by (cases s; cases t) (simp_all add: type_value_def str_def)

lemma count_type_value:
  "count_list (map (\<lambda>elem. type_value (element_type elem)) elements) (type_value t) =
   length (filter (\<lambda>e. element_type e = t) elements)"
  by (induction elements) (simp_all add: type_value_inj)

lemma section_distribution_fold:
  "fold (\<lambda>elem d. if element_type elem = SECTION then dict_incr (page_number elem) d else d)
        elements d =
   fold dict_incr (map page_number (filter (\<lambda>e. element_type e = SECTION) elements)) d"
  by (induction elements arbitrary: d) simp_all

lemma hierarchical_counts_fold:
  "hierarchical_counts_per_page elements =
   fold dict_incr (map page_number (filter hierarchical elements)) []"
proof -
  have "(\<lambda>e. element_type e \<in> set [TITLE, SUBTITLE, SECTION]) = hierarchical"
    by (auto simp: hierarchical_def)
  then show ?thesis
    by (simp add: hierarchical_counts_per_page_def hierarchical_elements_def fold_map comp_def)
qed

lemma length_density: "length (text_density_per_page total_pages elements) = total_pages"
  by (simp add: text_density_per_page_def)

lemma round2_div_pos: "0 < b \<Longrightarrow> round2_div a b = Inr (rounded_mean a b)"
  by (simp add: round2_div_def truediv_def rounded_mean_def)

section \<open>The statistics of a document with at least one page\<close>

lemma generate_statistics_pos:
  assumes "0 < total_pages"
  shows "generate_statistics total_pages elements =
    Inr \<lparr>title_count = int (length (filter (\<lambda>e. element_type e = TITLE) elements)),
         section_count = int (length (filter (\<lambda>e. element_type e = SECTION) elements)),
         table_count = int (length (filter (\<lambda>e. element_type e = TABLE) elements)),
         image_count = int (length (filter (\<lambda>e. element_type e = IMAGE) elements)),
         avg_text_density_per_page =
           rounded_mean (sum_list (text_density_per_page total_pages elements)) (int total_pages),
         avg_hierarchical_depth =
           (if hierarchical_counts_per_page elements = [] then PyInt 0
            else rounded_mean (sum_list (map snd (hierarchical_counts_per_page elements)))
                   (int (length (hierarchical_counts_per_page elements)))),
         avg_paragraph_length =
           (if filter (\<lambda>e. element_type e = PARAGRAPH) elements = [] then PyInt 0
            else rounded_mean
                   (sum_list (map (\<lambda>p. int (length (str_split (content p))))
                      (filter (\<lambda>e. element_type e = PARAGRAPH) elements)))
                   (int (length (filter (\<lambda>e. element_type e = PARAGRAPH) elements)))),
         section_distribution = section_distribution_of elements\<rparr>"
proof -
  have d: "round2_div (sum_list (text_density_per_page total_pages elements))
             (int (length (text_density_per_page total_pages elements))) =
           Inr (rounded_mean (sum_list (text_density_per_page total_pages elements))
                  (int total_pages))"
    using assms by (simp add: length_density round2_div_pos)
  have h: "(if length (hierarchical_counts_per_page elements) \<noteq> 0
            then round2_div (sum_list (map snd (hierarchical_counts_per_page elements)))
                   (int (length (hierarchical_counts_per_page elements)))
            else Inr (PyInt 0)) =
           Inr (if hierarchical_counts_per_page elements = [] then PyInt 0
                else rounded_mean (sum_list (map snd (hierarchical_counts_per_page elements)))
                       (int (length (hierarchical_counts_per_page elements))))"
    by (simp add: round2_div_pos)
  have p: "(if ps \<noteq> []
            then round2_div (sum_list (map (\<lambda>p. int (length (str_split (content p)))) ps))
                   (int (length ps))
            else Inr (PyInt 0)) =
           Inr (if ps = [] then PyInt 0
                else rounded_mean (sum_list (map (\<lambda>p. int (length (str_split (content p)))) ps))
                       (int (length ps)))" for ps :: "DocumentElement list"
    by (simp add: round2_div_pos)
  show ?thesis
    unfolding generate_statistics_def Let_def d h p
    by (simp add: Counter_get count_type_value)
qed

lemma page_lengths_fold:
  "(case fold (\<lambda>e m. m(page_number e \<mapsto>
            (case m (page_number e) of None \<Rightarrow> 0 | Some l \<Rightarrow> l) + int (length (content e))))
          elements m p of None \<Rightarrow> 0 | Some l \<Rightarrow> l) =
   (case m p of None \<Rightarrow> 0 | Some l \<Rightarrow> l) +
   sum_list (map (\<lambda>e. int (length (content e))) (filter (\<lambda>e. page_number e = p) elements))"
  by (induction elements arbitrary: m) simp_all

lemma page_length_filter:
  "page_length elements p =
   sum_list (map (\<lambda>e. int (length (content e))) (filter (\<lambda>e. page_number e = p) elements))"
  using page_lengths_fold [of elements Map.empty p]
  by (simp add: page_length_def page_lengths_def)

lemma sum_text_density:
  "sum_list (text_density_per_page total_pages elements) =
   (\<Sum>p = 1..int total_pages. page_length elements p)"
proof -
  have "sum_list (text_density_per_page total_pages elements) =
        sum_list (map (page_length elements) [1..int total_pages])"
    unfolding text_density_per_page_def Let_def
    by (rule arg_cong [where f = sum_list], rule map_cong) (simp_all add: page_length_filter)
  also have "\<dots> = sum (page_length elements) (set [1..int total_pages])"
    by (rule sum_list_distinct_conv_sum_set) simp
  finally show ?thesis by simp
qed

lemma hierarchical_keys:
  "set (map page_number (filter hierarchical elements)) = hierarchical_pages elements"
  by (auto simp: hierarchical_pages_def)

lemma hierarchical_count:
  "hierarchical_on_page elements p =
   int (count_list (map page_number (filter hierarchical elements)) p)"
  by (induction elements) (simp_all add: hierarchical_on_page_def)

lemma sum_hierarchical:
  "sum_list (map snd (hierarchical_counts_per_page elements)) =
   (\<Sum>p \<in> hierarchical_pages elements. hierarchical_on_page elements p)"
proof -
  let ?ks = "map page_number (filter hierarchical elements)"
  have "sum_list (map snd (hierarchical_counts_per_page elements)) = int (length ?ks)"
    by (simp only: hierarchical_counts_fold Counter_sum)
  also have "length ?ks = sum (count_list ?ks) (set ?ks)"
    by (rule sum_count_set [symmetric]) simp_all
  also have "int \<dots> = (\<Sum>p \<in> set ?ks. int (count_list ?ks p))"
    by simp
  finally show ?thesis
    by (simp only: hierarchical_keys hierarchical_count)
qed

lemma length_hierarchical:
  "length (hierarchical_counts_per_page elements) = card (hierarchical_pages elements)"
  by (simp only: hierarchical_counts_fold Counter_length hierarchical_keys)

lemma hierarchical_empty:
  "hierarchical_counts_per_page elements = [] \<longleftrightarrow> hierarchical_pages elements = {}"
proof -
  have "finite (hierarchical_pages elements)"
    by (simp add: hierarchical_pages_def)
  then show ?thesis
    using length_hierarchical [of elements] by (metis card_0_eq length_0_conv)
qed

lemma section_distribution_Counter:
  "section_distribution_of elements =
   fold dict_incr (map page_number (filter (\<lambda>e. element_type e = SECTION) elements)) []"
  by (simp add: section_distribution_of_def section_distribution_fold)

section \<open>The arithmetic of \<open>/\<close> and \<open>round\<close>\<close>

text \<open>
  \<open>round_half_even n d\<close> is the integer nearest to \<open>n / d\<close>, ties to even, and there is
  one such integer.
\<close>

lemma round_half_even_nearest:
  assumes "0 < d"
  shows "nearest_even (of_int n / of_int d) (round_half_even n d)"
proof -
  define q where "q = n div d"
  define r where "r = n mod d"
  have n: "n = q * d + r" and r: "0 \<le> r" "r < d"
    using assms by (simp_all add: q_def r_def)
  have d: "(0::rat) < of_int d"
    using assms by simp
  have x: "(of_int n :: rat) / of_int d = of_int q + of_int r / of_int d"
    using d by (simp add: n field_simps)
  have lt: "2 * r < d \<Longrightarrow> (of_int r :: rat) / of_int d < 1 / 2"
  proof -
    assume "2 * r < d"
    then have "(of_int (2 * r) :: rat) < of_int d" by (simp only: of_int_less_iff)
    then show ?thesis using d by (simp add: field_simps)
  qed
  have gt: "d < 2 * r \<Longrightarrow> 1 / 2 < (of_int r :: rat) / of_int d"
  proof -
    assume "d < 2 * r"
    then have "(of_int d :: rat) < of_int (2 * r)" by (simp only: of_int_less_iff)
    then show ?thesis using d by (simp add: field_simps)
  qed
  have eq: "2 * r = d \<Longrightarrow> (of_int r :: rat) / of_int d = 1 / 2"
  proof -
    assume "2 * r = d"
    then have "(of_int d :: rat) = of_int (2 * r)" by simp
    then show ?thesis using d by (simp add: field_simps)
  qed
  have nn: "(0::rat) \<le> of_int r / of_int d" and l1: "(of_int r :: rat) / of_int d < 1"
    using r d by simp_all
  define y :: rat where "y = of_int r / of_int d"
  have xy: "(of_int n :: rat) / of_int d = of_int q + y"
    by (simp only: x y_def)
  have y: "0 \<le> y" "y < 1"
    using nn l1 by (simp_all only: y_def)
  consider "2 * r < d" | "d < 2 * r" | "2 * r = d" by linarith
  then show ?thesis
  proof cases
    case 1
    then have "round_half_even n d = q"
      by (simp add: round_half_even_def q_def r_def Let_def)
    moreover have "y < 1 / 2" using lt [OF 1] by (simp only: y_def)
    ultimately show ?thesis
      using y unfolding nearest_even_def xy by simp
  next
    case 2
    then have "round_half_even n d = q + 1"
      by (simp add: round_half_even_def q_def r_def Let_def)
    moreover have "1 / 2 < y" using gt [OF 2] by (simp only: y_def)
    ultimately show ?thesis
      using y unfolding nearest_even_def xy by simp
  next
    case 3
    then have k: "round_half_even n d = (if even q then q else q + 1)"
      by (simp add: round_half_even_def q_def r_def Let_def)
    have "y = 1 / 2" using eq [OF 3] by (simp only: y_def)
    then show ?thesis
      unfolding nearest_even_def xy k by simp
  qed
qed

lemma nearest_even_unique:
  assumes "nearest_even x k" and "nearest_even x k'"
  shows "k = k'"
proof -
  have le: "\<bar>of_int k - x\<bar> \<le> 1 / 2" "\<bar>of_int k' - x\<bar> \<le> 1 / 2"
    using assms unfolding nearest_even_def by auto
  have "\<bar>(of_int k :: rat) - of_int k'\<bar> \<le> 1"
    using le by linarith
  then have "\<bar>(of_int (k - k') :: rat)\<bar> \<le> of_int 1" by simp
  then have d: "\<bar>k - k'\<bar> \<le> 1"
    by (simp only: of_int_abs [symmetric] of_int_le_iff)
  show ?thesis
  proof (cases "\<bar>of_int k - x\<bar> < 1 / 2 \<or> \<bar>of_int k' - x\<bar> < 1 / 2")
    case True
    then have "\<bar>(of_int k :: rat) - of_int k'\<bar> < 1"
      using le by linarith
    then have "\<bar>(of_int (k - k') :: rat)\<bar> < of_int 1" by simp
    then have "\<bar>k - k'\<bar> < 1"
      by (simp only: of_int_abs [symmetric] of_int_less_iff)
    then show ?thesis by simp
  next
    case False
    then have "even k" "even k'"
      using assms unfolding nearest_even_def by auto
    then have "even (k - k')" by simp
    then show ?thesis using d by presburger
  qed
qed

lemma nearest_even_le: "nearest_even x k \<Longrightarrow> \<bar>of_int k - x\<bar> \<le> 1 / 2"
  unfolding nearest_even_def by auto

text \<open>
  \<open>floor_log2 a b\<close> is the exponent of the quotient: \<open>2^e \<le> a / b < 2^(e + 1)\<close>.
\<close>

lemma pow2_powi: "pow2 e = 2 powi e"
  by (simp add: pow2_def power_int_def inverse_eq_divide power_one_over)

lemma powi_nat: "0 \<le> e \<Longrightarrow> (2::rat) powi e = 2 ^ nat e"
  by (simp add: power_int_def)

lemma powi_neg: "e < 0 \<Longrightarrow> (2::rat) powi e = 1 / 2 ^ nat (- e)"
  by (simp add: power_int_def inverse_eq_divide power_one_over)

lemma powi_pos: "(0::rat) < 2 powi e"
  by simp

lemma powi_Suc: "(2::rat) powi (e + 1) = 2 * 2 powi e"
  by (simp add: power_int_add)

lemma bitlen_powi:
  assumes "0 < a"
  shows "(2::rat) powi (bitlen a - 1) \<le> of_int a" and "(of_int a :: rat) < 2 powi bitlen a"
proof -
  have b: "2 ^ nat (bitlen a - 1) \<le> a" "a < 2 ^ nat (bitlen a)"
    using bitlen_bounds [OF assms] by simp_all
  have l: "1 \<le> bitlen a"
    using assms by (auto simp: bitlen_alt_def)
  have "(of_int (2 ^ nat (bitlen a - 1)) :: rat) \<le> of_int a"
    using b(1) by (simp only: of_int_le_iff)
  then show "(2::rat) powi (bitlen a - 1) \<le> of_int a"
    using l by (simp add: powi_nat)
  have "(of_int a :: rat) < of_int (2 ^ nat (bitlen a))"
    using b(2) by (simp only: of_int_less_iff)
  then show "(of_int a :: rat) < 2 powi bitlen a"
    using l by (simp add: powi_nat)
qed

lemma floor_log2_test:
  assumes "0 < a" and "0 < b"
  shows "(if 0 \<le> d then b * 2 ^ nat d \<le> a else b \<le> a * 2 ^ nat (- d))
         \<longleftrightarrow> (2::rat) powi d \<le> of_int a / of_int b"
proof (cases "0 \<le> d")
  case True
  have "(b * 2 ^ nat d \<le> a) \<longleftrightarrow> ((of_int (b * 2 ^ nat d) :: rat) \<le> of_int a)"
    by (simp only: of_int_le_iff)
  also have "\<dots> \<longleftrightarrow> ((2::rat) ^ nat d \<le> of_int a / of_int b)"
    using assms by (simp add: field_simps)
  finally show ?thesis
    using True by (simp add: powi_nat)
next
  case False
  have "(b \<le> a * 2 ^ nat (- d)) \<longleftrightarrow> ((of_int b :: rat) \<le> of_int (a * 2 ^ nat (- d)))"
    by (simp only: of_int_le_iff)
  also have "\<dots> \<longleftrightarrow> (1 / (2::rat) ^ nat (- d) \<le> of_int a / of_int b)"
    using assms by (simp add: field_simps)
  finally show ?thesis
    using False by (simp add: powi_neg)
qed

lemma floor_log2_bounds:
  assumes "0 < a" and "0 < b"
  shows "(2::rat) powi floor_log2 a b \<le> of_int a / of_int b"
    and "(of_int a :: rat) / of_int b < 2 powi (floor_log2 a b + 1)"
proof -
  define d where "d = bitlen a - bitlen b"
  define x :: rat where "x = of_int a / of_int b"
  have a: "(2::rat) powi (bitlen a - 1) \<le> of_int a" "(of_int a :: rat) < 2 powi bitlen a"
    using bitlen_powi [OF assms(1)] by simp_all
  have b: "(2::rat) powi (bitlen b - 1) \<le> of_int b" "(of_int b :: rat) < 2 powi bitlen b"
    using bitlen_powi [OF assms(2)] by simp_all
  have pa: "(0::rat) < of_int a" and pb: "(0::rat) < of_int b"
    using assms by simp_all
  have "x * 2 powi (bitlen b - 1) \<le> x * of_int b"
    using b(1) pa pb by (intro mult_left_mono) (simp_all add: x_def)
  also have "\<dots> = of_int a"
    using pb by (simp add: x_def)
  also have "\<dots> < 2 powi bitlen a"
    by (rule a(2))
  finally have "x < 2 powi bitlen a / 2 powi (bitlen b - 1)"
    by (simp add: field_simps)
  also have "\<dots> = 2 powi (d + 1)"
    by (simp add: d_def power_int_diff [symmetric] algebra_simps)
  finally have upper: "x < 2 powi (d + 1)" .
  have "2 powi (bitlen a - 1) \<le> (of_int a :: rat)"
    by (rule a(1))
  also have "\<dots> = x * of_int b"
    using pb by (simp add: x_def)
  also have "\<dots> < x * 2 powi bitlen b"
    using b(2) pa pb by (intro mult_strict_left_mono) (simp_all add: x_def)
  finally have "2 powi (bitlen a - 1) / 2 powi bitlen b < x"
    by (simp add: field_simps)
  moreover have "(2::rat) powi (bitlen a - 1) / 2 powi bitlen b = 2 powi (d - 1)"
    by (simp add: d_def power_int_diff [symmetric] algebra_simps)
  ultimately have lower: "2 powi (d - 1) < x"
    by simp
  have f: "floor_log2 a b = (if (2::rat) powi d \<le> x then d else d - 1)"
    unfolding floor_log2_def Let_def d_def [symmetric] x_def
    by (simp only: floor_log2_test [OF assms])
  show "(2::rat) powi floor_log2 a b \<le> of_int a / of_int b"
    using lower unfolding f x_def [symmetric] by simp
  show "(of_int a :: rat) / of_int b < 2 powi (floor_log2 a b + 1)"
    using upper unfolding f x_def [symmetric] by (simp add: not_le)
qed

text \<open>
  Hence \<open>nearest_double a b\<close> is \<open>a / b\<close> rounded to 53 significant bits, and
  \<open>py_round x n\<close> is the nearest decimal with \<open>n\<close> fractional digits rounded to 53
  significant bits.
\<close>

lemma scaled_quotient:
  assumes "0 < a" and "0 < b"
  shows "(if 0 \<le> e then (of_int a :: rat) / of_int (b * 2 ^ nat e)
         else of_int (a * 2 ^ nat (- e)) / of_int b) = of_int a / of_int b / 2 powi e"
proof (cases "0 \<le> e")
  case True
  then show ?thesis by (simp add: powi_nat)
next
  case False
  then show ?thesis by (simp add: powi_neg)
qed

lemma nearest_double_pos_scaled:
  assumes "0 < a" and "0 < b"
  shows "\<exists>m. nearest_even (of_int a / of_int b / 2 powi (floor_log2 a b - 52)) m \<and>
             nearest_double_pos a b = of_int m * 2 powi (floor_log2 a b - 52)"
proof -
  define e where "e = floor_log2 a b - 52"
  show ?thesis
  proof (cases "0 \<le> e")
    case True
    have "0 < b * 2 ^ nat e" using assms by simp
    then have "nearest_even (of_int a / of_int (b * 2 ^ nat e)) (round_half_even a (b * 2 ^ nat e))"
      by (rule round_half_even_nearest)
    moreover have "(of_int a :: rat) / of_int (b * 2 ^ nat e) = of_int a / of_int b / 2 powi e"
      using scaled_quotient [OF assms, of e] True by simp
    moreover have "nearest_double_pos a b = of_int (round_half_even a (b * 2 ^ nat e)) * 2 powi e"
      using True by (simp add: nearest_double_pos_def Let_def e_def [symmetric] pow2_powi)
    ultimately show ?thesis
      unfolding e_def [symmetric] by auto
  next
    case False
    have "nearest_even (of_int (a * 2 ^ nat (- e)) / of_int b) (round_half_even (a * 2 ^ nat (- e)) b)"
      using assms(2) by (rule round_half_even_nearest)
    moreover have "(of_int (a * 2 ^ nat (- e)) :: rat) / of_int b = of_int a / of_int b / 2 powi e"
      using scaled_quotient [OF assms, of e] False by simp
    moreover have "nearest_double_pos a b = of_int (round_half_even (a * 2 ^ nat (- e)) b) * 2 powi e"
      using False by (simp add: nearest_double_pos_def Let_def e_def [symmetric] pow2_powi)
    ultimately show ?thesis
      unfolding e_def [symmetric] by auto
  qed
qed

lemma significand_range:
  assumes "0 < a" and "0 < b"
  shows "(2::rat) ^ 52 \<le> of_int a / of_int b / 2 powi (floor_log2 a b - 52)"
    and "(of_int a :: rat) / of_int b / 2 powi (floor_log2 a b - 52) < 2 ^ 53"
proof -
  define f where "f = floor_log2 a b"
  define x :: rat where "x = of_int a / of_int b"
  have l: "2 powi f \<le> x" and u: "x < 2 powi (f + 1)"
    using floor_log2_bounds [OF assms] by (simp_all add: f_def x_def)
  have s: "(2::rat) powi f = 2 ^ 52 * 2 powi (f - 52)"
    using power_int_add [of "2::rat" 52 "f - 52"] by simp
  have s': "(2::rat) powi (f + 1) = 2 ^ 53 * 2 powi (f - 52)"
    using power_int_add [of "2::rat" 53 "f - 52"] by (simp add: add.commute)
  have p: "(0::rat) < 2 powi (f - 52)" by simp
  show "(2::rat) ^ 52 \<le> of_int a / of_int b / 2 powi (floor_log2 a b - 52)"
    unfolding f_def [symmetric] x_def [symmetric]
    using l p unfolding s by (simp only: pos_le_divide_eq)
  show "(of_int a :: rat) / of_int b / 2 powi (floor_log2 a b - 52) < 2 ^ 53"
    unfolding f_def [symmetric] x_def [symmetric]
    using u p unfolding s' by (simp only: pos_divide_less_eq)
qed

lemma nearest_double_pos_binary64:
  assumes "0 < a" and "0 < b"
  shows "nearest_binary64 (of_int a / of_int b) (nearest_double_pos a b)"
proof -
  define x :: rat where "x = of_int a / of_int b"
  have x: "0 < x" using assms by (simp add: x_def)
  obtain m where m: "nearest_even (x / 2 powi (floor_log2 a b - 52)) m"
      "nearest_double_pos a b = of_int m * 2 powi (floor_log2 a b - 52)"
    using nearest_double_pos_scaled [OF assms] unfolding x_def by blast
  have r: "2 ^ 52 \<le> x / 2 powi (floor_log2 a b - 52)" "x / 2 powi (floor_log2 a b - 52) < 2 ^ 53"
    using significand_range [OF assms] unfolding x_def by simp_all
  have ax: "\<bar>x\<bar> = x" "sgn x = 1" using x by simp_all
  show ?thesis
    unfolding nearest_binary64_def x_def [symmetric] ax
    using m r by (intro disjI2 exI [of _ m] exI [of _ "floor_log2 a b - 52"]) simp
qed

lemma nearest_binary64_minus: "nearest_binary64 x r \<Longrightarrow> nearest_binary64 (- x) (- r)"
  unfolding nearest_binary64_def
  by (elim disjE exE conjE) (simp, intro disjI2, simp add: sgn_minus, blast)

lemma nearest_double_binary64:
  assumes "0 < b"
  shows "nearest_binary64 (of_int a / of_int b) (nearest_double a b)"
proof -
  consider "a = 0" | "a < 0" | "0 < a" by linarith
  then show ?thesis
  proof cases
    case 1
    then show ?thesis by (simp add: nearest_double_def nearest_binary64_def)
  next
    case 2
    then have "nearest_binary64 (of_int (- a) / of_int b) (nearest_double_pos (- a) b)"
      using assms by (intro nearest_double_pos_binary64) simp_all
    then have "nearest_binary64 (- (of_int (- a) / of_int b)) (- nearest_double_pos (- a) b)"
      by (rule nearest_binary64_minus)
    then show ?thesis using 2 by (simp add: nearest_double_def)
  next
    case 3
    then show ?thesis
      using nearest_double_pos_binary64 [OF 3 assms] by (simp add: nearest_double_def)
  qed
qed

lemma py_round_binary64:
  "\<exists>k. nearest_even (x * 10 ^ n) k \<and> nearest_binary64 (of_int k / 10 ^ n) (py_round x n)"
proof -
  obtain p d where q: "quotient_of (x * 10 ^ n) = (p, d)"
    by (cases "quotient_of (x * 10 ^ n)")
  have d: "0 < d" using q by (rule quotient_of_denom_pos)
  have v: "x * 10 ^ n = of_int p / of_int d" using q by (rule quotient_of_div)
  have "nearest_even (x * 10 ^ n) (round_half_even p d)"
    unfolding v using d by (rule round_half_even_nearest)
  moreover have "nearest_binary64 (of_int (round_half_even p d) / of_int (10 ^ n))
                   (nearest_double (round_half_even p d) (10 ^ n))"
    by (rule nearest_double_binary64) simp
  moreover have "py_round x n = nearest_double (round_half_even p d) (10 ^ n)"
    by (simp add: py_round_def q)
  ultimately show ?thesis by auto
qed

text \<open>
  Rounding to 53 significant bits moves a number by at most \<open>2^-53\<close> of its size, and the
  result is determined by the number.
\<close>

lemma nearest_binary64_error:
  assumes "nearest_binary64 x r"
  shows "\<bar>r - x\<bar> \<le> \<bar>x\<bar> / 2 ^ 53"
proof (cases "x = 0")
  case True
  then show ?thesis using assms unfolding nearest_binary64_def by auto
next
  case False
  then obtain m e where r: "2 ^ 52 \<le> \<bar>x\<bar> / 2 powi e" and n: "nearest_even (\<bar>x\<bar> / 2 powi e) m"
      and v: "r = sgn x * (of_int m * 2 powi e)"
    using assms unfolding nearest_binary64_def by auto
  define p :: rat where "p = 2 powi e"
  have p: "0 < p" by (simp add: p_def)
  have le: "\<bar>of_int m - \<bar>x\<bar> / p\<bar> \<le> 1 / 2"
    using nearest_even_le [OF n] by (simp only: p_def)
  have "r - x = sgn x * (of_int m * p - \<bar>x\<bar>)"
  proof -
    have "x = sgn x * \<bar>x\<bar>" by (simp only: sgn_mult_abs)
    then have "r - x = sgn x * (of_int m * p) - sgn x * \<bar>x\<bar>"
      unfolding v p_def by simp
    then show ?thesis by (simp only: right_diff_distrib)
  qed
  then have "\<bar>r - x\<bar> = \<bar>of_int m * p - \<bar>x\<bar>\<bar>"
    using False by (simp add: abs_mult abs_sgn_eq)
  also have "of_int m * p - \<bar>x\<bar> = (of_int m - \<bar>x\<bar> / p) * p"
    using p by (simp add: field_simps)
  also have "\<bar>\<dots>\<bar> = \<bar>of_int m - \<bar>x\<bar> / p\<bar> * p"
    using p by (simp add: abs_mult)
  also have "\<dots> \<le> 1 / 2 * p"
    using le p by (intro mult_right_mono) simp_all
  also have "\<dots> \<le> \<bar>x\<bar> / 2 ^ 53"
  proof -
    have "2 ^ 52 * p \<le> \<bar>x\<bar>"
      using r p unfolding p_def [symmetric] by (simp only: pos_le_divide_eq)
    then show ?thesis by simp
  qed
  finally show ?thesis .
qed

lemma exponent_less:
  assumes "(2::rat) ^ 52 \<le> y / 2 powi e'" and "y / 2 powi e < 2 ^ 53"
  shows "e' \<le> e"
proof (rule ccontr)
  assume "\<not> e' \<le> e"
  then have "e + 1 \<le> e'" by simp
  then have "(2::rat) powi (e + 1) \<le> 2 powi e'"
    by (intro power_int_increasing) simp_all
  then have i: "2 * (2::rat) powi e \<le> 2 powi e'"
    by (simp only: powi_Suc)
  have "y < 2 ^ 53 * 2 powi e"
    using assms(2) by (simp add: pos_divide_less_eq)
  also have "\<dots> = 2 ^ 52 * (2 * 2 powi e)" by simp
  also have "\<dots> \<le> 2 ^ 52 * 2 powi e'"
    using i by (intro mult_left_mono) simp_all
  also have "\<dots> \<le> y"
    using assms(1) by (simp add: pos_le_divide_eq)
  finally show False by simp
qed

lemma nearest_binary64_unique:
  assumes "nearest_binary64 x r" and "nearest_binary64 x r'"
  shows "r = r'"
proof (cases "x = 0")
  case True
  then show ?thesis using assms unfolding nearest_binary64_def by auto
next
  case False
  obtain m e where 1: "2 ^ 52 \<le> \<bar>x\<bar> / 2 powi e" "\<bar>x\<bar> / 2 powi e < 2 ^ 53"
      "nearest_even (\<bar>x\<bar> / 2 powi e) m" "r = sgn x * (of_int m * 2 powi e)"
    using assms(1) False unfolding nearest_binary64_def by auto
  obtain m' e' where 2: "2 ^ 52 \<le> \<bar>x\<bar> / 2 powi e'" "\<bar>x\<bar> / 2 powi e' < 2 ^ 53"
      "nearest_even (\<bar>x\<bar> / 2 powi e') m'" "r' = sgn x * (of_int m' * 2 powi e')"
    using assms(2) False unfolding nearest_binary64_def by auto
  have e: "e = e'"
    using exponent_less [OF 1(1) 2(2)] exponent_less [OF 2(1) 1(2)] by simp
  have "m = m'"
    using 1(3) 2(3) unfolding e by (rule nearest_even_unique)
  then show ?thesis
    by (simp only: 1(4) 2(4) e)
qed

text \<open>
  When \<open>200 * a\<close> is below \<open>2^53\<close>, the error of the division is too small to carry the
  quotient across the middle between two decimals: an integer within one half of
  \<open>100 * q\<close> is within one half of \<open>100 * a / b\<close>.
\<close>

lemma decimal_of_exact_quotient:
  fixes q :: rat
  assumes b: "0 < b" and a: "0 \<le> a" and small: "200 * a < 2 ^ 53"
    and d1: "\<bar>of_int k - 100 * q\<bar> \<le> 1 / 2"
    and d2: "\<bar>q - of_int a / of_int b\<bar> \<le> of_int a / of_int b / 2 ^ 53"
  shows "\<bar>of_int k / 100 - (of_int a :: rat) / of_int b\<bar> \<le> 1 / 200"
proof (rule ccontr)
  assume "\<not> \<bar>of_int k / 100 - (of_int a :: rat) / of_int b\<bar> \<le> 1 / 200"
  define x :: rat where "x = of_int a / of_int b"
  define B :: rat where "B = of_int b"
  have B: "0 < B" using b by (simp add: B_def)
  have far: "1 / 2 < \<bar>of_int k - 100 * x\<bar>"
    using \<open>\<not> \<bar>of_int k / 100 - (of_int a :: rat) / of_int b\<bar> \<le> 1 / 200\<close>
    unfolding x_def [symmetric] by (simp add: abs_le_iff not_le field_simps)
  have xB: "x * B = of_int a"
    using B by (simp add: x_def B_def)
  have e1: "(of_int k - 100 * x) * (2 * B) = of_int (2 * b * k - 200 * a)"
    using xB by (simp add: algebra_simps B_def)
  have e2: "\<bar>of_int (2 * b * k - 200 * a) :: rat\<bar> = \<bar>of_int k - 100 * x\<bar> * (2 * B)"
  proof -
    have "\<bar>(of_int k - 100 * x) * (2 * B)\<bar> = \<bar>of_int k - 100 * x\<bar> * \<bar>2 * B\<bar>"
      by (rule abs_mult)
    moreover have "\<bar>2 * B\<bar> = 2 * B"
      using B by simp
    ultimately show ?thesis
      by (simp only: e1 [symmetric])
  qed
  note e2
  also have "\<dots> > 1 / 2 * (2 * B)"
    using far B by (intro mult_strict_right_mono) simp_all
  finally have "(of_int b :: rat) < of_int \<bar>2 * b * k - 200 * a\<bar>"
    by (simp add: B_def)
  then have "b < \<bar>2 * b * k - 200 * a\<bar>"
    by (simp only: of_int_less_iff)
  then have "b + 1 \<le> \<bar>2 * b * k - 200 * a\<bar>"
    by simp
  then have "(of_int (b + 1) :: rat) \<le> of_int \<bar>2 * b * k - 200 * a\<bar>"
    by (simp only: of_int_le_iff)
  also have "\<dots> = \<bar>of_int k - 100 * x\<bar> * (2 * B)"
    using e2 by simp
  finally have gap: "B + 1 \<le> \<bar>of_int k - 100 * x\<bar> * (2 * B)"
    by (simp add: B_def)
  have "(of_int (200 * a) :: rat) < of_int (2 ^ 53)"
    using small by (simp only: of_int_less_iff)
  then have s: "200 * (x * B) < 2 ^ 53"
    by (simp add: xB)
  have "\<bar>q - x\<bar> * (200 * B) \<le> x / 2 ^ 53 * (200 * B)"
    using d2 B unfolding x_def [symmetric] by (intro mult_right_mono) simp_all
  also have "\<dots> = 200 * (x * B) / 2 ^ 53"
    by simp
  also have "\<dots> < 1"
    using s by simp
  finally have "\<bar>q - x\<bar> * (200 * B) < 1" .
  moreover have "\<bar>100 * q - 100 * x\<bar> = 100 * \<bar>q - x\<bar>"
  proof -
    have "\<bar>100 * (q - x)\<bar> = \<bar>100\<bar> * \<bar>q - x\<bar>"
      by (rule abs_mult)
    then show ?thesis
      by (simp only: right_diff_distrib abs_numeral)
  qed
  ultimately have err: "\<bar>100 * q - 100 * x\<bar> * (2 * B) < 1"
    by simp
  have "\<bar>of_int k - 100 * x\<bar> \<le> \<bar>of_int k - 100 * q\<bar> + \<bar>100 * q - 100 * x\<bar>"
    by linarith
  then have "\<bar>of_int k - 100 * x\<bar> * (2 * B)
        \<le> (\<bar>of_int k - 100 * q\<bar> + \<bar>100 * q - 100 * x\<bar>) * (2 * B)"
    using B by (intro mult_right_mono) simp_all
  also have "\<dots> = \<bar>of_int k - 100 * q\<bar> * (2 * B) + \<bar>100 * q - 100 * x\<bar> * (2 * B)"
    by (simp only: distrib_right)
  also have "\<dots> < 1 / 2 * (2 * B) + 1"
  proof -
    have "\<bar>of_int k - 100 * q\<bar> * (2 * B) \<le> 1 / 2 * (2 * B)"
      using d1 B by (intro mult_right_mono) simp_all
    then show ?thesis using err by linarith
  qed
  finally show False
    using gap by simp
qed

text \<open>
  \<open>round(a / b, 2)\<close> for \<open>a \<ge> 0\<close> and \<open>b > 0\<close>: the quotient is rounded to binary64,
  that number \<open>q\<close> is rounded to the nearest \<open>k / 100\<close>, and \<open>k / 100\<close> is rounded to
  binary64. The decimal \<open>k / 100\<close> is within half a unit of the second decimal place of
  the exact quotient when \<open>200 * a < 2^53\<close>, and up to the error of the division otherwise.
\<close>

lemma rounded_mean_binary64:
  assumes "0 < b" and "0 \<le> a"
  shows "\<exists>q k r. rounded_mean a b = PyFloat r \<and>
           nearest_binary64 (of_int a / of_int b) q \<and>
           nearest_even (100 * q) k \<and>
           nearest_binary64 (of_int k / 100) r \<and>
           \<bar>of_int k / 100 - (of_int a :: rat) / of_int b\<bar>
             \<le> 1 / 200 + (if 200 * a < 2 ^ 53 then 0 else of_int a / of_int b / 2 ^ 53)"
proof -
  define x :: rat where "x = of_int a / of_int b"
  define q where "q = nearest_double a b"
  have x: "0 \<le> x" using assms by (simp add: x_def)
  have q: "nearest_binary64 x q"
    unfolding x_def q_def using assms(1) by (rule nearest_double_binary64)
  obtain k where k: "nearest_even (q * 10 ^ 2) k" "nearest_binary64 (of_int k / 10 ^ 2) (py_round q 2)"
    using py_round_binary64 [of q 2] by blast
  have k1: "nearest_even (100 * q) k"
    using k(1) by (simp add: mult.commute)
  have k2: "nearest_binary64 (of_int k / 100) (py_round q 2)"
    using k(2) by simp
  have d0: "\<bar>of_int k - 100 * q\<bar> \<le> 1 / 2"
    using k1 by (rule nearest_even_le)
  then have d1: "\<bar>of_int k / 100 - q\<bar> \<le> 1 / 200"
    by (simp add: abs_le_iff field_simps)
  have d2: "\<bar>q - x\<bar> \<le> x / 2 ^ 53"
    using nearest_binary64_error [OF q] x by simp
  have "\<bar>of_int k / 100 - x\<bar> \<le> 1 / 200 + (if 200 * a < 2 ^ 53 then 0 else x / 2 ^ 53)"
  proof (cases "200 * a < 2 ^ 53")
    case True
    have "\<bar>of_int k / 100 - x\<bar> \<le> 1 / 200"
      unfolding x_def using assms True d0 d2 [unfolded x_def]
      by (rule decimal_of_exact_quotient)
    then show ?thesis
      using True by simp
  next
    case False
    have "\<bar>of_int k / 100 - x\<bar> \<le> 1 / 200 + x / 2 ^ 53"
      using d1 d2 by linarith
    then show ?thesis
      using False by simp
  qed
  then show ?thesis
    unfolding x_def [symmetric]
    using q k1 k2 unfolding rounded_mean_def q_def [symmetric] by blast
qed

text \<open>
  The decimal is chosen from the binary64 quotient, not from the exact one: 107 / 40 is
  2.675, the binary64 number nearest to it lies below it, and the rounded mean is 2.67.
\<close>

lemma rounded_mean_tie: "rounded_mean 107 40 = PyFloat (nearest_double 267 100)"
  by code_simp

lemma nearest_double_267: "nearest_double 267 100 \<noteq> nearest_double 268 100"
  by code_simp

text \<open>
  The two averages of the code are rounded means of sums that are not negative.
\<close>

lemma page_length_nonneg: "0 \<le> page_length elements p"
  unfolding page_length_filter by (rule sum_list_nonneg) auto

lemma hierarchical_on_page_nonneg: "0 \<le> hierarchical_on_page elements p"
  by (simp add: hierarchical_on_page_def)

lemma density_rounded_mean:
  assumes "0 < total_pages"
  shows "\<exists>stats. generate_statistics total_pages elements = Inr stats \<and>
     avg_text_density_per_page stats =
       rounded_mean (\<Sum>p = 1..int total_pages. page_length elements p) (int total_pages)"
  using assms by (simp add: generate_statistics_pos sum_text_density)

lemma depth_rounded_mean:
  assumes "0 < total_pages"
  shows "\<exists>stats. generate_statistics total_pages elements = Inr stats \<and>
     avg_hierarchical_depth stats =
       (if hierarchical_pages elements = {} then PyInt 0
        else rounded_mean (\<Sum>p \<in> hierarchical_pages elements. hierarchical_on_page elements p)
               (int (card (hierarchical_pages elements))))"
  using assms
  by (simp add: generate_statistics_pos hierarchical_empty sum_hierarchical length_hierarchical)

lemma example_hierarchical_pages: "hierarchical_pages [example_section] = {2}"
proof -
  have h: "hierarchical example_section"
    by (simp add: hierarchical_def example_section_def)
  have p: "page_number example_section = 2"
    by (simp add: example_section_def)
  have "{e \<in> set [example_section]. hierarchical e} = {example_section}"
    using h by auto
  then show ?thesis
    by (simp only: hierarchical_pages_def p image_insert image_empty)
qed

section \<open>Claims about the statistics\<close>

text \<open>
  C3 (the code departs from the claim). With a page count of 0 the list of page densities is
  empty and \<open>sum(...) / len(...)\<close> divides by zero: the aggregation fails with
  \<open>ZeroDivisionError\<close>, a division fault, whatever the elements; it has no check of the
  page count and no error of its own.
\<close>

theorem generate_statistics_zero_pages:
  "generate_statistics 0 elements = Inl ZeroDivisionError"
  by (simp add: generate_statistics_def text_density_per_page_def round2_div_def truediv_def)

text \<open>
  C5. For a page count of at least 1 the aggregation returns statistics whose
  \<open>avg_text_density_per_page\<close> is the sum, over the pages 1 to the page count, of the summed
  content length of the page (0 for a page without elements), divided by the page count and
  rounded to 2 decimal places, in the arithmetic of floats: the exact mean is rounded to
  the nearest binary64 number \<open>q\<close>, \<open>q\<close> to the nearest decimal \<open>k / 100\<close> (ties to the even
  \<open>k\<close>), and the statistic is the binary64 number nearest to \<open>k / 100\<close>. The decimal
  is a nearest one to the exact mean, at most 0.005 from it, when 200 times the summed
  length is below \<open>2^53\<close>; for longer texts the error of the division is added.
\<close>

theorem avg_text_density_per_page_mean:
  assumes "0 < total_pages"
  shows "\<exists>stats q k r. generate_statistics total_pages elements = Inr stats \<and>
     avg_text_density_per_page stats = PyFloat r \<and>
     nearest_binary64 (mean_text_density total_pages elements) q \<and>
     nearest_even (100 * q) k \<and>
     nearest_binary64 (of_int k / 100) r \<and>
     \<bar>of_int k / 100 - mean_text_density total_pages elements\<bar>
       \<le> 1 / 200 + (if 200 * total_text_length total_pages elements < 2 ^ 53 then 0
                    else mean_text_density total_pages elements / 2 ^ 53)"
proof -
  define s where "s = (\<Sum>p = 1..int total_pages. page_length elements p)"
  from density_rounded_mean [OF assms, of elements]
  obtain stats where st: "generate_statistics total_pages elements = Inr stats"
      and avg: "avg_text_density_per_page stats = rounded_mean s (int total_pages)"
    unfolding s_def by (elim exE conjE)
  have s: "0 \<le> s"
    unfolding s_def by (intro sum_nonneg page_length_nonneg)
  have n: "0 < int total_pages"
    using assms by simp
  from rounded_mean_binary64 [OF n s]
  obtain q k r where r: "rounded_mean s (int total_pages) = PyFloat r"
      and 1: "nearest_binary64 (of_int s / of_int (int total_pages)) q"
      and 2: "nearest_even (100 * q) k"
      and 3: "nearest_binary64 (of_int k / 100) r"
      and 4: "\<bar>of_int k / 100 - (of_int s :: rat) / of_int (int total_pages)\<bar>
                \<le> 1 / 200 + (if 200 * s < 2 ^ 53 then 0
                             else of_int s / of_int (int total_pages) / 2 ^ 53)"
    by (elim exE conjE)
  have 0: "avg_text_density_per_page stats = PyFloat r"
    by (simp only: avg r)
  show ?thesis
    unfolding mean_text_density_def total_text_length_def s_def [symmetric]
    by (intro exI [of _ stats] exI [of _ q] exI [of _ k] exI [of _ r] conjI)
       (rule st 0 1 2 3 4)+
qed

theorem avg_text_density_per_page_mean_witness:
  "0 < (5::nat) \<and>
   (\<exists>stats q k r. generate_statistics 5 [example_section] = Inr stats \<and>
     avg_text_density_per_page stats = PyFloat r \<and>
     nearest_binary64 (mean_text_density 5 [example_section]) q \<and>
     nearest_even (100 * q) k \<and>
     nearest_binary64 (of_int k / 100) r \<and>
     \<bar>of_int k / 100 - mean_text_density 5 [example_section]\<bar>
       \<le> 1 / 200 + (if 200 * total_text_length 5 [example_section] < 2 ^ 53 then 0
                    else mean_text_density 5 [example_section] / 2 ^ 53))"
proof (rule conjI)
  show "0 < (5::nat)" by simp
  then show "\<exists>stats q k r. generate_statistics 5 [example_section] = Inr stats \<and>
     avg_text_density_per_page stats = PyFloat r \<and>
     nearest_binary64 (mean_text_density 5 [example_section]) q \<and>
     nearest_even (100 * q) k \<and>
     nearest_binary64 (of_int k / 100) r \<and>
     \<bar>of_int k / 100 - mean_text_density 5 [example_section]\<bar>
       \<le> 1 / 200 + (if 200 * total_text_length 5 [example_section] < 2 ^ 53 then 0
                    else mean_text_density 5 [example_section] / 2 ^ 53)"
    by (rule avg_text_density_per_page_mean)
qed

text \<open>
  A mean that lies half way between two decimals: 107 characters on 40 pages give 2.67.
\<close>

lemma density_tie:
  "\<exists>stats. generate_statistics 40 [example_long] = Inr stats \<and>
     avg_text_density_per_page stats = PyFloat (nearest_double 267 100)"
proof -
  have "sum_list (text_density_per_page 40 [example_long]) = 107"
    by (simp add: text_density_per_page_def example_long_def upto_rec1)
  then show ?thesis
    by (simp add: generate_statistics_pos rounded_mean_tie)
qed

text \<open>
  C6. \<open>avg_hierarchical_depth\<close> is the mean, over exactly the pages that hold at least one
  title, subtitle or section, of the number of such elements on the page, rounded to 2
  decimal places in the same arithmetic, the decimal at most 0.005 from the exact mean when
  200 times the number of hierarchical elements is below \<open>2^53\<close>; when there is no such
  element it is the integer 0 and nothing is divided.
\<close>

theorem avg_hierarchical_depth_mean:
  assumes "0 < total_pages"
  shows "\<exists>stats. generate_statistics total_pages elements = Inr stats \<and>
     (if hierarchical_pages elements = {} then avg_hierarchical_depth stats = PyInt 0
      else \<exists>q k r. avg_hierarchical_depth stats = PyFloat r \<and>
             nearest_binary64 (mean_hierarchical_depth elements) q \<and>
             nearest_even (100 * q) k \<and>
             nearest_binary64 (of_int k / 100) r \<and>
             \<bar>of_int k / 100 - mean_hierarchical_depth elements\<bar>
               \<le> 1 / 200 + (if 200 * hierarchical_total elements < 2 ^ 53 then 0
                            else mean_hierarchical_depth elements / 2 ^ 53))"
proof -
  define s where "s = (\<Sum>p \<in> hierarchical_pages elements. hierarchical_on_page elements p)"
  define n where "n = int (card (hierarchical_pages elements))"
  from depth_rounded_mean [OF assms, of elements]
  obtain stats where st: "generate_statistics total_pages elements = Inr stats"
      and avg: "avg_hierarchical_depth stats =
         (if hierarchical_pages elements = {} then PyInt 0 else rounded_mean s n)"
    unfolding s_def n_def by (elim exE conjE)
  show ?thesis
  proof (cases "hierarchical_pages elements = {}")
    case True
    then have "avg_hierarchical_depth stats = PyInt 0"
      using avg by simp
    then show ?thesis
      using st True by simp
  next
    case False
    have "finite (hierarchical_pages elements)"
      by (simp add: hierarchical_pages_def)
    then have n: "0 < n"
      using False by (simp add: n_def card_gt_0_iff)
    have s: "0 \<le> s"
      unfolding s_def by (intro sum_nonneg hierarchical_on_page_nonneg)
    from rounded_mean_binary64 [OF n s]
    obtain q k r where r: "rounded_mean s n = PyFloat r"
        and 1: "nearest_binary64 (of_int s / of_int n) q"
        and 2: "nearest_even (100 * q) k"
        and 3: "nearest_binary64 (of_int k / 100) r"
        and 4: "\<bar>of_int k / 100 - (of_int s :: rat) / of_int n\<bar>
                  \<le> 1 / 200 + (if 200 * s < 2 ^ 53 then 0 else of_int s / of_int n / 2 ^ 53)"
      by (elim exE conjE)
    have 0: "avg_hierarchical_depth stats = PyFloat r"
      using avg False by (simp only: r if_False)
    have "\<exists>q k r. avg_hierarchical_depth stats = PyFloat r \<and>
             nearest_binary64 (mean_hierarchical_depth elements) q \<and>
             nearest_even (100 * q) k \<and>
             nearest_binary64 (of_int k / 100) r \<and>
             \<bar>of_int k / 100 - mean_hierarchical_depth elements\<bar>
               \<le> 1 / 200 + (if 200 * hierarchical_total elements < 2 ^ 53 then 0
                            else mean_hierarchical_depth elements / 2 ^ 53)"
      unfolding mean_hierarchical_depth_def hierarchical_total_def s_def [symmetric] n_def [symmetric]
      by (intro exI [of _ q] exI [of _ k] exI [of _ r] conjI) (rule 0 1 2 3 4)+
    then show ?thesis
      using st False by (intro exI [of _ stats] conjI) (simp_all only: if_False)
  qed
qed

theorem avg_hierarchical_depth_mean_witness:
  "0 < (5::nat) \<and> hierarchical_pages [example_section] \<noteq> {} \<and>
   (\<exists>stats. generate_statistics 5 [example_section] = Inr stats \<and>
     (\<exists>q k r. avg_hierarchical_depth stats = PyFloat r \<and>
             nearest_binary64 (mean_hierarchical_depth [example_section]) q \<and>
             nearest_even (100 * q) k \<and>
             nearest_binary64 (of_int k / 100) r \<and>
             \<bar>of_int k / 100 - mean_hierarchical_depth [example_section]\<bar>
               \<le> 1 / 200 + (if 200 * hierarchical_total [example_section] < 2 ^ 53 then 0
                            else mean_hierarchical_depth [example_section] / 2 ^ 53)))"
proof (intro conjI)
  show 5: "0 < (5::nat)" by simp
  show ne: "hierarchical_pages [example_section] \<noteq> {}"
    by (simp only: example_hierarchical_pages) simp
  show "\<exists>stats. generate_statistics 5 [example_section] = Inr stats \<and>
     (\<exists>q k r. avg_hierarchical_depth stats = PyFloat r \<and>
             nearest_binary64 (mean_hierarchical_depth [example_section]) q \<and>
             nearest_even (100 * q) k \<and>
             nearest_binary64 (of_int k / 100) r \<and>
             \<bar>of_int k / 100 - mean_hierarchical_depth [example_section]\<bar>
               \<le> 1 / 200 + (if 200 * hierarchical_total [example_section] < 2 ^ 53 then 0
                            else mean_hierarchical_depth [example_section] / 2 ^ 53))"
    using avg_hierarchical_depth_mean [OF 5, of "[example_section]"] by (simp only: ne if_False)
qed

text \<open>
  C7. Aggregating the empty element list with a page count of 3 returns, without fault, the
  four counts 0, the density 0.0, the depth 0, the paragraph length 0 and the empty section
  distribution.
\<close>

theorem generate_statistics_empty:
  "generate_statistics 3 [] =
     Inr \<lparr>title_count = 0, section_count = 0, table_count = 0, image_count = 0,
          avg_text_density_per_page = PyFloat 0, avg_hierarchical_depth = PyInt 0,
          avg_paragraph_length = PyInt 0, section_distribution = []\<rparr>"
  by (simp add: generate_statistics_def text_density_per_page_def Counter_def dict_get_def
        hierarchical_counts_per_page_def hierarchical_elements_def section_distribution_of_def
        round2_div_def truediv_def nearest_double_def py_round_def round_half_even_def)

text \<open>
  C10. In the statistics of any element list, every value of \<open>section_distribution\<close> is at
  least 1, its keys are distinct pages, and \<open>section_count\<close> is the sum of its values.
\<close>

theorem section_distribution_counts:
  "0 < total_pages \<Longrightarrow>
   \<exists>stats. generate_statistics total_pages elements = Inr stats \<and>
     (\<forall>(p, c) \<in> set (section_distribution stats). 1 \<le> c) \<and>
     distinct (map fst (section_distribution stats)) \<and>
     section_count stats = sum_list (map snd (section_distribution stats))"
proof -
  assume "0 < total_pages"
  let ?ks = "map page_number (filter (\<lambda>e. element_type e = SECTION) elements)"
  have "\<forall>(p, c) \<in> set (fold dict_incr ?ks []). 1 \<le> c"
    by (rule fold_dict_incr_positive) simp
  moreover have "distinct (map fst (fold dict_incr ?ks []))"
    using fold_dict_incr_keys [of "[]" ?ks] by simp
  moreover have "sum_list (map snd (fold dict_incr ?ks [])) = int (length ?ks)"
    by (rule Counter_sum)
  ultimately show ?thesis
    using \<open>0 < total_pages\<close>
    by (simp add: generate_statistics_pos section_distribution_Counter)
qed

theorem section_distribution_counts_witness:
  "0 < (5::nat) \<and>
   (\<exists>stats. generate_statistics 5 [example_section] = Inr stats \<and>
     (\<forall>(p, c) \<in> set (section_distribution stats). 1 \<le> c) \<and>
     distinct (map fst (section_distribution stats)) \<and>
     section_count stats = sum_list (map snd (section_distribution stats)))"
  using section_distribution_counts [of 5 "[example_section]"] by simp

text \<open>
  The example of the specification: one section on page 2 of a document of 5 pages.
\<close>

lemma generate_statistics_example:
  "generate_statistics 5 [example_section] =
     Inr \<lparr>title_count = 0, section_count = 1, table_count = 0, image_count = 0,
          avg_text_density_per_page = PyFloat 1, avg_hierarchical_depth = PyFloat 1,
          avg_paragraph_length = PyInt 0, section_distribution = [(2, 1)]\<rparr>"
proof -
  have r: "rounded_mean 5 5 = PyFloat 1" "rounded_mean 1 1 = PyFloat 1"
    by code_simp+
  have d: "text_density_per_page 5 [example_section] = [0, 5, 0, 0, 0]"
    by (simp add: text_density_per_page_def example_section_def str_def upto_rec1)
  show ?thesis
    by (simp add: generate_statistics_pos d r hierarchical_counts_per_page_def
          hierarchical_elements_def section_distribution_of_def)
       (simp add: example_section_def)
qed

section \<open>The elements of a page\<close>

lemma collect_spans_fold:
  "fold (\<lambda>span (text_content, fi).
           (text_content @ span_text span,
            case fi of
              None \<Rightarrow> Some \<lparr>font_name = span_font span, font_size = span_size span,
                             font_flags = span_flags span\<rparr>
            | Some f \<Rightarrow> Some f))
        spans (t, fi) =
   (t @ concat (map span_text spans),
    case fi of
      None \<Rightarrow> (case spans of [] \<Rightarrow> None
               | s0 # _ \<Rightarrow> Some \<lparr>font_name = span_font s0, font_size = span_size s0,
                                  font_flags = span_flags s0\<rparr>)
    | Some f \<Rightarrow> Some f)"
  by (induction spans arbitrary: t fi) (auto split: option.splits list.splits)

lemma collect_spans_eq:
  "collect_spans lines =
   (concat (map span_text (concat lines)),
    case concat lines of [] \<Rightarrow> None
    | s0 # _ \<Rightarrow> Some \<lparr>font_name = span_font s0, font_size = span_size s0,
                       font_flags = span_flags s0\<rparr>)"
  by (simp add: collect_spans_def collect_spans_fold)

lemma str_strip_Nil: "str_strip [] = []"
  by (simp add: str_strip_def str_lstrip_def str_rstrip_def)

lemma str_replace_one: "str_replace old [new] s = map (\<lambda>c. if c = old then new else c) s"
  by (induction s) (simp_all add: str_replace_def)

lemma str_replace_none: "str_replace old [] s = filter (\<lambda>c. c \<noteq> old) s"
  by (induction s) (simp_all add: str_replace_def)

lemma text_block_element_nonblank:
  assumes "str_strip (concat (map span_text (concat lines))) \<noteq> []"
  shows "\<exists>element. text_block_element digit b lines page_no = Inr (Some element) \<and>
           content element =
             filter (\<lambda>c. c \<noteq> 0x09)
               (map (\<lambda>c. if c = 0x0A then 0x20 else c)
                  (str_strip (concat (map span_text (concat lines)))))"
proof (cases "concat lines")
  case Nil
  with assms show ?thesis by (simp add: str_strip_Nil)
next
  case (Cons s0 spans)
  with assms show ?thesis
    by (simp add: text_block_element_def collect_spans_eq str_replace_one str_replace_none
          str_def)
qed

text \<open>
  C4 (the claim as the code has it). For every text block whose concatenated span text is
  not blank, the loop body produces an element, and its content is the concatenated text
  with leading and trailing whitespace stripped, every newline replaced by a single space
  and every tab character removed.
\<close>

theorem text_block_element_content:
  assumes "str_strip (concat (map span_text (concat lines))) \<noteq> []"
  shows "\<exists>element. text_block_element digit b lines page_no = Inr (Some element) \<and>
           content element =
             filter (\<lambda>c. c \<noteq> 0x09)
               (map (\<lambda>c. if c = 0x0A then 0x20 else c)
                  (str_strip (concat (map span_text (concat lines)))))"
  using assms by (rule text_block_element_nonblank)

lemma py_round_examples:
  "py_round 72 4 = 72" "py_round 100 4 = 100" "py_round 200 4 = 200" "py_round 120 4 = 120"
  by code_simp+

lemma example_tab_text:
  "str_strip (concat (map span_text (concat [[example_tab_span]]))) = [0x61, 0x09, 0x62]"
  by (simp add: example_tab_span_def str_strip_def str_lstrip_def str_rstrip_def isspace_def)

lemma example_tab_section:
  "classify_items ascii_digit [0x61, 0x09, 0x62]
     \<lparr>font_name = str ''Helvetica'', font_size = 12, font_flags = 0\<rparr> = SECTION"
  by (simp add: classify_items_def str_strip_def str_lstrip_def str_rstrip_def str_split_def
        isspace_def list_patterns_def bullet_def letter_def dot_paren_def dash_star_plus_def
        ascii_digit_def)

theorem text_block_element_content_witness:
  "str_strip (concat (map span_text (concat [[example_tab_span]]))) \<noteq> [] \<and>
   (\<exists>element. text_block_element ascii_digit (72, 100, 200, 120) [[example_tab_span]] 1 =
        Inr (Some element) \<and>
      content element =
        filter (\<lambda>c. c \<noteq> 0x09)
          (map (\<lambda>c. if c = 0x0A then 0x20 else c)
             (str_strip (concat (map span_text (concat [[example_tab_span]]))))))"
proof -
  have h: "str_strip (concat (map span_text (concat [[example_tab_span]]))) \<noteq> []"
    by (simp only: example_tab_text) simp
  from h text_block_element_content [OF h, of ascii_digit "(72, 100, 200, 120)" 1]
  show ?thesis by (rule conjI)
qed

text \<open>
  C4 as stated fails on a text block holding the single span \<open>"a\tb"\<close>: the stored content is
  \<open>"ab"\<close>, where replacing the tab character by a single space would give \<open>"a b"\<close>.
\<close>

theorem text_block_element_tab_counterexample:
  "text_block_element ascii_digit (72, 100, 200, 120) [[example_tab_span]] 1 =
     Inr (Some \<lparr>element_type = SECTION, content = str ''ab'', page_number = 1,
                position = \<lparr>pos_x0 = 72, pos_y0 = 100, pos_x1 = 200, pos_y1 = 120\<rparr>,
                font_info =
                  Some \<lparr>font_name = str ''Helvetica'', font_size = 12, font_flags = 0\<rparr>\<rparr>) \<and>
   str ''ab'' \<noteq>
     map (\<lambda>c. if c = 0x0A \<or> c = 0x09 then 0x20 else c)
       (str_strip (concat (map span_text (concat [[example_tab_span]]))))"
proof -
  have t: "collect_spans [[example_tab_span]] =
           ([0x61, 0x09, 0x62],
            Some \<lparr>font_name = str ''Helvetica'', font_size = 12, font_flags = 0\<rparr>)"
    by (simp add: collect_spans_def example_tab_span_def)
  have s: "str_strip [0x61, 0x09, 0x62] = [0x61, 0x09, 0x62]"
    using example_tab_text by (simp add: example_tab_span_def)
  have c: "str_replace 0x09 [] (str_replace 0x0A (str '' '') [0x61, 0x09, 0x62]) = str ''ab''"
    by (simp add: str_replace_def str_def)
  have "text_block_element ascii_digit (72, 100, 200, 120) [[example_tab_span]] 1 =
     Inr (Some \<lparr>element_type = SECTION, content = str ''ab'', page_number = 1,
                position = \<lparr>pos_x0 = 72, pos_y0 = 100, pos_x1 = 200, pos_y1 = 120\<rparr>,
                font_info =
                  Some \<lparr>font_name = str ''Helvetica'', font_size = 12, font_flags = 0\<rparr>\<rparr>)"
    unfolding text_block_element_def t
    by (simp add: s c example_tab_section rounded_position_def py_round_examples)
  moreover have "str ''ab'' \<noteq>
     map (\<lambda>c. if c = 0x0A \<or> c = 0x09 then 0x20 else c)
       (str_strip (concat (map span_text (concat [[example_tab_span]]))))"
    by (simp only: example_tab_text) (simp add: str_def)
  ultimately show ?thesis by (rule conjI)
qed

section \<open>The order of the elements\<close>

lemma text_block_element_cases:
  "text_block_element digit b lines page_no = Inr None \<or>
   (\<exists>element. text_block_element digit b lines page_no = Inr (Some element))"
proof (cases "str_strip (concat (map span_text (concat lines))) = []")
  case True
  then show ?thesis by (simp add: text_block_element_def collect_spans_eq)
next
  case False
  then show ?thesis using text_block_element_nonblank by blast
qed

lemma text_elements_blocks:
  "text_elements digit blocks page_no =
   Inr (concat (map (block_elements digit page_no) blocks))"
proof (induction blocks)
  case Nil
  then show ?case by simp
next
  case (Cons blk blocks)
  show ?case
  proof (cases blk)
    case (OtherBlock b)
    with Cons show ?thesis by (simp add: block_elements_def)
  next
    case (TextBlock b lines)
    from text_block_element_cases [of digit b lines page_no] show ?thesis
    proof
      assume "text_block_element digit b lines page_no = Inr None"
      with TextBlock Cons show ?thesis by (simp add: block_elements_def)
    next
      assume "\<exists>element. text_block_element digit b lines page_no = Inr (Some element)"
      then obtain element where "text_block_element digit b lines page_no = Inr (Some element)" ..
      with TextBlock Cons show ?thesis by (simp add: block_elements_def)
    qed
  qed
qed

lemma extract_page_elements_emitted:
  "extract_page_elements digit page page_no = Inr (emitted_elements digit page page_no)"
  by (simp add: extract_page_elements_def text_elements_blocks emitted_elements_def)

lemma enumerate_from0_Cons:
  "enumerate_from0 (x # xs) = (0, x) # map (\<lambda>(i, y). (Suc i, y)) (enumerate_from0 xs)"
proof -
  have "[0..<Suc (length xs)] = 0 # map Suc [0..<length xs]"
    by (simp only: map_Suc_upt upt_conv_Cons [of 0 "Suc (length xs)"])
  then show ?thesis
    by (simp add: enumerate_from0_def zip_map1 del: upt_Suc)
qed

lemma extract_pages_emitted:
  "extract_pages digit pages k =
   Inr (concat (map (\<lambda>(i, page). emitted_elements digit page (k + 1 + int i))
                  (enumerate_from0 pages)))"
proof (induction pages arbitrary: k)
  case Nil
  then show ?case by (simp add: enumerate_from0_def)
next
  case (Cons page pages)
  have "(\<lambda>(i, page). emitted_elements digit page (k + 1 + 1 + int i)) =
        (\<lambda>(i, page). emitted_elements digit page (k + 1 + int (Suc i)))"
    by (simp add: fun_eq_iff add.assoc)
  with Cons [of "k + 1"] show ?case
    by (simp add: extract_page_elements_emitted enumerate_from0_Cons comp_def case_prod_unfold)
qed

lemma sorts_before_total: "\<not> sorts_before a b \<Longrightarrow> sorts_before b a"
  by (auto simp: sorts_before_def)

lemma sorts_before_trans: "sorts_before a b \<Longrightarrow> sorts_before b c \<Longrightarrow> sorts_before a c"
  by (auto simp: sorts_before_def)

lemma set_insert_row: "set (insert_row r xs) = insert r (set xs)"
  by (induction xs) auto

lemma mset_insert_row: "mset (insert_row r xs) = add_mset r (mset xs)"
  by (induction xs) simp_all

lemma sorted_insert_row:
  "sorted_wrt sorts_before xs \<Longrightarrow> sorted_wrt sorts_before (insert_row r xs)"
proof (induction xs)
  case Nil
  then show ?case by simp
next
  case (Cons x xs)
  show ?case
  proof (cases "sorts_before r x")
    case True
    with Cons.prems have "\<forall>y \<in> set (x # xs). sorts_before r y"
      using sorts_before_trans by auto
    with True Cons.prems show ?thesis by simp
  next
    case False
    then have "sorts_before x r" by (rule sorts_before_total)
    with False Cons show ?thesis by (simp add: set_insert_row)
  qed
qed

lemma mset_order_by: "mset (order_by rows) = mset rows"
  by (induction rows) (simp_all add: order_by_def mset_insert_row)

lemma sorted_order_by: "sorted_wrt sorts_before (order_by rows)"
  by (induction rows) (simp_all add: order_by_def sorted_insert_row)

text \<open>
  C8 (the claim as the code has it). Within each page the extraction emits the elements of
  the text blocks in block order, then the images in their order, then the tables in their
  order; the pages follow each other in page order, and \<open>extract_structure\<close> hands this list
  on as it is. The list that \<open>get_document_elements\<close> hands to its callers holds the selected
  rows re-sorted: by page number, then by \<open>position_y0\<close> in descending order.
\<close>

theorem elements_emission_order_then_sorted:
  "extract_page_elements digit page page_no = Inr (emitted_elements digit page page_no) \<and>
   (doc \<noteq> [] \<longrightarrow>
      (\<exists>stats. extract_structure digit doc =
         Inr (concat (map (\<lambda>(i, page). emitted_elements digit page (1 + int i))
                        (enumerate_from0 doc)), stats))) \<and>
   sorted_wrt sorts_before (get_document_elements db uuid type_filter page_filter) \<and>
   mset (get_document_elements db uuid type_filter page_filter) =
     mset (select_elements db uuid type_filter page_filter)"
proof -
  have "\<exists>stats. extract_structure digit doc =
         Inr (concat (map (\<lambda>(i, page). emitted_elements digit page (1 + int i))
                        (enumerate_from0 doc)), stats)" if "doc \<noteq> []"
  proof -
    from that have "0 < length doc" by simp
    then obtain stats where
      "generate_statistics (length doc)
         (concat (map (\<lambda>(i, page). emitted_elements digit page (1 + int i))
                    (enumerate_from0 doc))) = Inr stats"
      by (simp add: generate_statistics_pos)
    then show ?thesis
      using extract_pages_emitted [of digit doc 0] by (simp add: extract_structure_def)
  qed
  then show ?thesis
    by (simp add: extract_page_elements_emitted get_document_elements_def sorted_order_by
          mset_order_by)
qed

theorem elements_emission_order_then_sorted_witness:
  "[example_page] \<noteq> [] \<and>
   (\<exists>stats. extract_structure ascii_digit [example_page] =
      Inr (concat (map (\<lambda>(i, page). emitted_elements ascii_digit page (1 + int i))
                     (enumerate_from0 [example_page])), stats))"
  using elements_emission_order_then_sorted
          [of ascii_digit example_page 1 "[example_page]" empty_database "[]" None None]
  by simp

lemma example_heading_title:
  "classify_items ascii_digit (str ''Heading'')
     \<lparr>font_name = str ''Helvetica-Bold'', font_size = 18, font_flags = 16\<rparr> = TITLE"
  by (simp add: classify_items_def str_strip_def str_lstrip_def str_rstrip_def str_split_def
        str_def isspace_def list_patterns_def bullet_def letter_def dot_paren_def
        dash_star_plus_def ascii_digit_def)

lemma example_body_section:
  "classify_items ascii_digit (str ''Body'')
     \<lparr>font_name = str ''Helvetica'', font_size = 11, font_flags = 0\<rparr> = SECTION"
  by (simp add: classify_items_def str_strip_def str_lstrip_def str_rstrip_def str_split_def
        str_def isspace_def list_patterns_def bullet_def letter_def dot_paren_def
        dash_star_plus_def ascii_digit_def)

lemma example_strip:
  "str_strip (str ''Heading'') = str ''Heading''" "str_strip (str ''Body'') = str ''Body''"
  by (simp_all add: str_strip_def str_lstrip_def str_rstrip_def str_def isspace_def)

lemma py_round_92: "py_round 92 4 = 92"
  by code_simp

lemma example_page_elements:
  "extract_page_elements ascii_digit example_page 1 =
     Inr [\<lparr>element_type = TITLE, content = str ''Heading'', page_number = 1,
           position = \<lparr>pos_x0 = 72, pos_y0 = 72, pos_x1 = 200, pos_y1 = 92\<rparr>,
           font_info =
             Some \<lparr>font_name = str ''Helvetica-Bold'', font_size = 18, font_flags = 16\<rparr>\<rparr>,
          \<lparr>element_type = SECTION, content = str ''Body'', page_number = 1,
           position = \<lparr>pos_x0 = 72, pos_y0 = 100, pos_x1 = 200, pos_y1 = 120\<rparr>,
           font_info =
             Some \<lparr>font_name = str ''Helvetica'', font_size = 11, font_flags = 0\<rparr>\<rparr>]"
proof -
  have h: "text_block_element ascii_digit (72, 72, 200, 92) [[example_heading_span]] 1 =
     Inr (Some \<lparr>element_type = TITLE, content = str ''Heading'', page_number = 1,
           position = \<lparr>pos_x0 = 72, pos_y0 = 72, pos_x1 = 200, pos_y1 = 92\<rparr>,
           font_info =
             Some \<lparr>font_name = str ''Helvetica-Bold'', font_size = 18, font_flags = 16\<rparr>\<rparr>)"
    by (simp add: text_block_element_def collect_spans_def example_heading_span_def
          example_strip example_heading_title rounded_position_def py_round_examples
          py_round_92)
       (simp add: str_def str_replace_def)
  have b: "text_block_element ascii_digit (72, 100, 200, 120) [[example_body_span]] 1 =
     Inr (Some \<lparr>element_type = SECTION, content = str ''Body'', page_number = 1,
           position = \<lparr>pos_x0 = 72, pos_y0 = 100, pos_x1 = 200, pos_y1 = 120\<rparr>,
           font_info =
             Some \<lparr>font_name = str ''Helvetica'', font_size = 11, font_flags = 0\<rparr>\<rparr>)"
    by (simp add: text_block_element_def collect_spans_def example_body_span_def
          example_strip example_body_section rounded_position_def py_round_examples)
       (simp add: str_def str_replace_def)
  show ?thesis
    by (simp add: extract_page_elements_def example_page_def h b enumerate_from0_def)
qed

text \<open>
  C8 as stated fails for the list that \<open>get_document_elements\<close> returns. A page emits a
  heading at \<open>y0 = 72\<close> and then a body line at \<open>y0 = 100\<close>; the elements are extracted in
  this order and saved to an empty database; \<open>get_document_elements\<close> then returns the body
  line before the heading.
\<close>

theorem get_document_elements_order_counterexample:
  "(case extract_page_elements ascii_digit example_page 1 of
      Inl err \<Rightarrow> False
    | Inr elements \<Rightarrow>
        map content elements = [str ''Heading'', str ''Body''] \<and>
        (case save_document empty_database (str ''doc-1'') (str ''report.pdf'') elements of
           Inl err \<Rightarrow> False
         | Inr (db, uuid) \<Rightarrow>
             map row_content (get_document_elements db uuid None None) =
               [str ''Body'', str ''Heading''] \<and>
             map row_content (get_document_elements db uuid None None) \<noteq>
               map content elements))"
  by (simp add: example_page_elements save_document_def empty_database_def next_id_def
        enumerate_from0_def element_row_def get_document_elements_def select_elements_def
        order_by_def sorts_before_def)
     (simp add: str_def)

end
